theory Spec2Isabelle
  imports Main
begin

section \<open>Values, exceptions and text helpers\<close>

text \<open>
  The model follows \<^verbatim>\<open>backends/core/models.py\<close>. Python exceptions are values of
  \<open>error\<close>; the names are those of the Python exception classes that the code can raise
  or catch. \<open>OtherError\<close> stands for any further exception of the expression evaluator.
\<close>

datatype error = AttributeError | TypeError | UnboundLocalError | InvalidExpression | OtherError

text \<open>
  A value held by the shared cache: a counter, a status string or a list of task names.
\<close>

datatype cval = VInt int | VStr string | VList "string list"

text \<open>Python truthiness of a cached value; \<open>None\<close> is a cache miss.\<close>

fun truthy :: "cval option \<Rightarrow> bool" where
  "truthy None = False"
| "truthy (Some (VInt n)) = (n \<noteq> 0)"
| "truthy (Some (VStr s)) = (s \<noteq> [])"
| "truthy (Some (VList l)) = (l \<noteq> [])"

text \<open>\<^verbatim>\<open>str(n)\<close> for an integer: decimal digits, with a minus sign when negative.\<close>

definition digit_char :: "nat \<Rightarrow> char" where
  "digit_char d = ''0123456789'' ! (d mod 10)"

fun str_nat :: "nat \<Rightarrow> string" where
  "str_nat n = (if n < 10 then [digit_char n] else str_nat (n div 10) @ [digit_char (n mod 10)])"

declare str_nat.simps [simp del]

definition str_int :: "int \<Rightarrow> string" where
  "str_int i = (if i < 0 then CHR ''-'' # str_nat (nat (- i)) else str_nat (nat i))"

text \<open>\<^verbatim>\<open>str(x)\<close> for a nullable integer column: \<^verbatim>\<open>str(None)\<close> is \<^verbatim>\<open>'None'\<close>.\<close>

definition str_opt_int :: "int option \<Rightarrow> string" where
  "str_opt_int x = (case x of None \<Rightarrow> ''None'' | Some i \<Rightarrow> str_int i)"

section \<open>Cache keys\<close>

definition CACHE_KEY_ENQUEUED_TASKS :: string where
  "CACHE_KEY_ENQUEUED_TASKS = ''enqueued_tasks''"

definition CACHE_KEY_STATUS :: string where
  "CACHE_KEY_STATUS = ''status''"

definition CACHE_KEY_LIST_OF_TASKS_ENQUEUED :: string where
  "CACHE_KEY_LIST_OF_TASKS_ENQUEUED = ''list_of_tasks_enqueued''"

definition CACHE_KEY_FAILED_JOBS :: string where
  "CACHE_KEY_FAILED_JOBS = ''failed_jobs''"

definition CACHE_KEY_REMAINING_JOBS :: string where
  "CACHE_KEY_REMAINING_JOBS = ''remaining_jobs''"

section \<open>The shared cache\<close>

type_synonym cache = "string \<rightharpoonup> cval"

text \<open>
  Modelled from the spec: the module \<^verbatim>\<open>core.cache\<close> (imported as
  \<^verbatim>\<open>memcache_client\<close>) is not part of the sources. The spec gives the store two
  primitives, an unconditional write \<^verbatim>\<open>set(key, value)\<close> and an atomic
  \<^verbatim>\<open>update(key, fn)\<close> applying \<^verbatim>\<open>fn(current_or_nil)\<close>, and says that a reader falls
  back to its default on a cache miss. The four functions below are the calls that
  \<^verbatim>\<open>models.py\<close> makes, with the keys exactly as the callers pass them.
\<close>

definition cache_get :: "cache \<Rightarrow> string \<Rightarrow> cval \<Rightarrow> cval" where
  "cache_get c key default_value = (case c key of None \<Rightarrow> default_value | Some v \<Rightarrow> v)"

definition set_cache :: "string \<Rightarrow> cval \<Rightarrow> cache \<Rightarrow> cache" where
  "set_cache key v c = c(key \<mapsto> v)"

definition set_multi_cache :: "(string \<times> cval) list \<Rightarrow> cache \<Rightarrow> cache" where
  "set_multi_cache kvs c = c ++ map_of (rev kvs)"

definition set_cache_with_value_function ::
  "string \<Rightarrow> (cval option \<Rightarrow> error + cval) \<Rightarrow> cache \<Rightarrow> error + cache" where
  "set_cache_with_value_function key f c =
     (case f (c key) of Inl e \<Rightarrow> Inl e | Inr v \<Rightarrow> Inr (c(key \<mapsto> v)))"

section \<open>Counter and task-list handlers of a job\<close>

text \<open>
  \<^verbatim>\<open>_increase_value_cache\<close>: \<^verbatim>\<open>db_value = db_value + 1 if db_value else 1\<close>, and the
  handler returns \<^verbatim>\<open>cached_value + 1\<close> when the cached value is truthy, else that
  \<open>db_value\<close>. Adding 1 to a non-empty string or list raises \<^verbatim>\<open>TypeError\<close>.
\<close>

definition increase_seed :: "int option \<Rightarrow> int" where
  "increase_seed db_value =
     (case db_value of None \<Rightarrow> 1 | Some d \<Rightarrow> if d \<noteq> 0 then d + 1 else 1)"

definition increase_handler :: "int option \<Rightarrow> cval option \<Rightarrow> error + cval" where
  "increase_handler db_value cached_value =
     (if truthy cached_value then
        (case cached_value of Some (VInt n) \<Rightarrow> Inr (VInt (n + 1)) | _ \<Rightarrow> Inl TypeError)
      else Inr (VInt (increase_seed db_value)))"

text \<open>
  \<^verbatim>\<open>_decrease_value_cache\<close>: \<^verbatim>\<open>db_value = db_value - 1 if db_value else 0\<close>, and the
  handler returns \<^verbatim>\<open>cached_value - 1\<close> when the cached value is truthy, else that
  \<open>db_value\<close>.
\<close>

definition decrease_seed :: "int option \<Rightarrow> int" where
  "decrease_seed db_value =
     (case db_value of None \<Rightarrow> 0 | Some d \<Rightarrow> if d \<noteq> 0 then d - 1 else 0)"

definition decrease_handler :: "int option \<Rightarrow> cval option \<Rightarrow> error + cval" where
  "decrease_handler db_value cached_value =
     (if truthy cached_value then
        (case cached_value of Some (VInt n) \<Rightarrow> Inr (VInt (n - 1)) | _ \<Rightarrow> Inl TypeError)
      else Inr (VInt (decrease_seed db_value)))"

text \<open>
  \<^verbatim>\<open>_add_task_name_cache\<close>: \<^verbatim>\<open>cached_value + [task_name]\<close> when truthy, else
  \<^verbatim>\<open>[task_name]\<close>.
\<close>

definition add_task_handler :: "string \<Rightarrow> cval option \<Rightarrow> error + cval" where
  "add_task_handler task_name cached_value =
     (if truthy cached_value then
        (case cached_value of Some (VList l) \<Rightarrow> Inr (VList (l @ [task_name])) | _ \<Rightarrow> Inl TypeError)
      else Inr (VList [task_name]))"

text \<open>
  \<^verbatim>\<open>_delete_task_name_cache\<close>: the comprehension
  \<^verbatim>\<open>[task for task in cached_value if task != task_name]\<close> when truthy, else \<^verbatim>\<open>[]\<close>.
  Iterating a string yields its one-character strings; iterating an integer raises.
\<close>

definition delete_task_handler :: "string \<Rightarrow> cval option \<Rightarrow> error + cval" where
  "delete_task_handler task_name cached_value =
     (if truthy cached_value then
        (case cached_value of
           Some (VList l) \<Rightarrow> Inr (VList (filter (\<lambda>task. task \<noteq> task_name) l))
         | Some (VStr s) \<Rightarrow> Inr (VList (filter (\<lambda>task. task \<noteq> task_name) (map (\<lambda>ch. [ch]) s)))
         | _ \<Rightarrow> Inl TypeError)
      else Inr (VList []))"

section \<open>Typed parameter values\<close>

text \<open>
  A float is kept as the literal text that \<^verbatim>\<open>float()\<close> accepted: the model records
  that the result is a float and which literal it came from, not its binary value.
\<close>

datatype pyfloat = FloatLit string

datatype num = NInt int | NFloat pyfloat

datatype pval = PBool bool | PNum num | PStr string | PStrList "string list" | PNumList "num list"

text \<open>
  The expression evaluator \<^verbatim>\<open>simple_eval\<close> (package \<^verbatim>\<open>simpleeval\<close>, called with
  \<^verbatim>\<open>inline.functions\<close>) and the builtin \<^verbatim>\<open>str\<close> applied to its result are
  external to the repository; the model takes them as parameters.
\<close>

record env =
  simple_eval :: "string \<Rightarrow> (string \<rightharpoonup> pval) \<Rightarrow> error + pval"
  str_result :: "pval \<Rightarrow> string"

subsection \<open>The numeric parser\<close>

definition isspace :: "char \<Rightarrow> bool" where
  "isspace c = (c \<in> set [CHR 0x20, CHR 0x09, CHR 0x0A, CHR 0x0B, CHR 0x0C, CHR 0x0D])"

definition isdigit :: "char \<Rightarrow> bool" where
  "isdigit c = (c \<in> set ''0123456789'')"

definition strip :: "string \<Rightarrow> string" where
  "strip s = rev (dropWhile isspace (rev (dropWhile isspace s)))"

definition digit_val :: "char \<Rightarrow> int" where
  "digit_val c = int (of_char c) - 48"

definition digits_val :: "string \<Rightarrow> int" where
  "digits_val ds = foldl (\<lambda>a c. 10 * a + digit_val c) 0 ds"

definition drop_sign :: "string \<Rightarrow> string" where
  "drop_sign t = (case t of [] \<Rightarrow> [] | c # r \<Rightarrow> if c = CHR ''+'' \<or> c = CHR ''-'' then r else t)"

text \<open>
  \<^verbatim>\<open>int(s)\<close> of Python 2 on a byte string: surrounding whitespace, an optional sign
  (whitespace may follow it), then decimal digits only. \<open>None\<close> is \<^verbatim>\<open>ValueError\<close>.
\<close>

definition py_int :: "string \<Rightarrow> int option" where
  "py_int s =
     (let t = strip s;
          neg = (case t of [] \<Rightarrow> False | c # _ \<Rightarrow> c = CHR ''-'');
          ds = dropWhile isspace (drop_sign t)
      in if ds \<noteq> [] \<and> list_all isdigit ds
         then Some (if neg then - digits_val ds else digits_val ds)
         else None)"

definition lower :: "char \<Rightarrow> char" where
  "lower c = (if (65::nat) \<le> of_char c \<and> of_char c \<le> (90::nat)
              then char_of (of_char c + (32::nat)) else c)"

definition is_exponent :: "string \<Rightarrow> bool" where
  "is_exponent r =
     (case r of [] \<Rightarrow> True
      | c # ds \<Rightarrow> (c = CHR ''e'' \<or> c = CHR ''E'') \<and> drop_sign ds \<noteq> [] \<and> list_all isdigit (drop_sign ds))"

definition is_decimal_float :: "string \<Rightarrow> bool" where
  "is_decimal_float u =
     (let ip = takeWhile isdigit u; r1 = dropWhile isdigit u
      in case r1 of
           c # r \<Rightarrow>
             if c = CHR ''.''
             then (ip \<noteq> [] \<or> takeWhile isdigit r \<noteq> []) \<and> is_exponent (dropWhile isdigit r)
             else ip \<noteq> [] \<and> is_exponent r1
         | [] \<Rightarrow> ip \<noteq> [])"

text \<open>
  \<^verbatim>\<open>float(s)\<close>: surrounding whitespace, an optional sign, then a decimal literal with
  optional fraction and exponent, or \<^verbatim>\<open>inf\<close>, \<^verbatim>\<open>infinity\<close>, \<^verbatim>\<open>nan\<close> in any case.
\<close>

definition py_float :: "string \<Rightarrow> pyfloat option" where
  "py_float s =
     (let t = strip s; u = drop_sign t
      in if map lower u \<in> set [''inf'', ''infinity'', ''nan''] \<or> is_decimal_float u
         then Some (FloatLit t) else None)"

text \<open>\<^verbatim>\<open>_parse_num\<close>: an int if it parses, else a float if it parses, else 0.\<close>

definition parse_num :: "string \<Rightarrow> num" where
  "parse_num s =
     (case py_int s of
        Some i \<Rightarrow> NInt i
      | None \<Rightarrow> (case py_float s of Some f \<Rightarrow> NFloat f | None \<Rightarrow> NInt 0))"

subsection \<open>Inliners\<close>

text \<open>
  \<^verbatim>\<open>_INLINER_REGEX = re.compile(r'{%.+?%}')\<close>. \<open>scan_close\<close> looks for the earliest
  \<^verbatim>\<open>%}\<close> and gives up at a newline, which \<^verbatim>\<open>.\<close> does not match; \<open>acc\<close> is the body
  read so far, reversed. The result is the inliner's body and the text after it.
\<close>

fun scan_close :: "string \<Rightarrow> string \<Rightarrow> (string \<times> string) option" where
  "scan_close acc [] = None"
| "scan_close acc (c # rest) =
     (if c = CHR ''%'' \<and> rest \<noteq> [] \<and> hd rest = CHR ''}'' then Some (rev acc, tl rest)
      else if c = CHR 0x0A then None
      else scan_close (c # acc) rest)"

text \<open>A match at the start of the text: \<^verbatim>\<open>{%\<close>, one character that is not a newline, then \<open>scan_close\<close>.\<close>

definition match_inliner :: "string \<Rightarrow> (string \<times> string) option" where
  "match_inliner s =
     (case s of
        a # b # c # rest \<Rightarrow>
          if a = CHR ''{'' \<and> b = CHR ''%'' \<and> c \<noteq> CHR 0x0A then scan_close [c] rest else None
      | _ \<Rightarrow> None)"

lemma scan_close_shorter: "scan_close acc s = Some (b, r) \<Longrightarrow> length r < length s"
proof (induction s arbitrary: acc)
  case Nil
  then show ?case by simp
next
  case (Cons c rest)
  show ?case
  proof (cases "c = CHR ''%'' \<and> rest \<noteq> [] \<and> hd rest = CHR ''}''")
    case True
    with Cons.prems have "r = tl rest" by simp
    with True show ?thesis by (cases rest) simp_all
  next
    case False
    with Cons.prems have "scan_close (c # acc) rest = Some (b, r)"
      by (simp split: if_splits)
    from Cons.IH [OF this] show ?thesis by simp
  qed
qed

lemma match_inliner_shorter: "match_inliner s = Some (b, r) \<Longrightarrow> length r < length s"
  by (auto simp: match_inliner_def split: list.splits if_splits dest!: scan_close_shorter)

text \<open>\<^verbatim>\<open>findall\<close>: the bodies of the non-overlapping matches, left to right.\<close>

function findall :: "string \<Rightarrow> string list" where
  "findall [] = []"
| "findall (c # rest) =
     (case match_inliner (c # rest) of
        Some (body, after) \<Rightarrow> body # findall after
      | None \<Rightarrow> findall rest)"
  by pat_completeness auto
termination
  by (relation "measure length") (auto dest: match_inliner_shorter)

declare findall.simps [simp del]

text \<open>\<^verbatim>\<open>value.replace(old, new)\<close>: every non-overlapping occurrence, left to right.\<close>

function replace :: "string \<Rightarrow> string \<Rightarrow> string \<Rightarrow> string" where
  "replace old new s =
     (if old = [] then new @ concat (map (\<lambda>c. c # new) s)
      else if s = [] then []
      else if take (length old) s = old then new @ replace old new (drop (length old) s)
      else hd s # replace old new (tl s))"
  by pat_completeness auto
termination
  by (relation "measure (\<lambda>(old, new, s). length s)") (auto simp: neq_Nil_conv)

declare replace.simps [simp del]

text \<open>\<^verbatim>\<open>val.split('\n')\<close>: split at every newline, keeping empty pieces.\<close>

fun split_lines :: "string \<Rightarrow> string list" where
  "split_lines [] = [[]]"
| "split_lines (c # rest) =
     (if c = CHR 0x0A then [] # split_lines rest
      else (case split_lines rest of l # ls \<Rightarrow> (c # l) # ls | [] \<Rightarrow> [[c]]))"

section \<open>Persisted rows and the state of the system\<close>

text \<open>
  Rows carry the columns that the modelled methods read or write. Nullable foreign keys
  are options. A timestamp is a reading of the clock.
\<close>

record pipeline =
  p_id :: int
  p_name :: string
  p_status :: string
  p_status_changed_at :: "nat option"

record job =
  j_id :: int
  j_name :: string
  j_status :: string
  j_status_changed_at :: "nat option"
  j_worker_class :: string
  j_pipeline_id :: "int option"
  j_enqueued_workers_count :: int

record start_condition =
  sc_id :: int
  sc_job_id :: "int option"
  sc_preceding_job_id :: "int option"
  sc_condition :: string

record param =
  prm_id :: int
  prm_name :: string
  prm_type :: string
  prm_pipeline_id :: "int option"
  prm_job_id :: "int option"
  prm_label :: string
  prm_value :: string

text \<open>
  A task as handed to \<^verbatim>\<open>taskqueue.add\<close>: target, name, url, the four entries of
  \<^verbatim>\<open>task_params\<close> and the countdown. \<open>t_worker_params\<close> is the argument of
  \<^verbatim>\<open>json.dumps\<close>, the name/value pairs in the order in which the dict was built.
\<close>

record task =
  t_target :: string
  t_name :: string
  t_url :: string
  t_job_id :: int
  t_worker_class :: string
  t_worker_params :: "(string \<times> pval) list"
  t_task_name :: string
  t_countdown :: nat

text \<open>A structured log record of \<^verbatim>\<open>Job.get_ready\<close>: the three labels, the parameter's label and the exception.\<close>

record log_entry =
  l_pipeline_id :: "int option"
  l_job_id :: int
  l_worker_class :: string
  l_param_label :: string
  l_exception :: error

text \<open>
  The state: the tables, the cache, the task queue, the pipelines passed to
  \<^verbatim>\<open>NotificationMailer().finished_pipeline\<close>, the log, the clock read by
  \<^verbatim>\<open>datetime.now()\<close>, and the supply of \<^verbatim>\<open>str(uuid.uuid4())\<close> values with the index
  of the next one. Objects of one row are one object (the session's identity map), so a
  method is given the row's id and reads and writes the row in the state.
\<close>

record state =
  pipelines :: "pipeline list"
  jobs :: "job list"
  start_conditions :: "start_condition list"
  params :: "param list"
  memcache :: cache
  queue :: "task list"
  mails :: "pipeline list"
  logs :: "log_entry list"
  clock :: nat
  uuid_seq :: "nat \<Rightarrow> string"
  uuid_next :: nat

section \<open>Outcomes and sequencing\<close>

text \<open>
  A call returns a value, raises, or exhausts the recursion budget of the model
  (\<open>OutOfFuel\<close>: Python would recurse without end). A stateful call also yields the
  state it leaves behind, whatever the outcome.
\<close>

datatype 'a outcome = Value 'a | Raised error | OutOfFuel

type_synonym 'a m = "state \<Rightarrow> 'a outcome \<times> state"

definition obind :: "'a outcome \<Rightarrow> ('a \<Rightarrow> 'b outcome) \<Rightarrow> 'b outcome" where
  "obind x f = (case x of Value a \<Rightarrow> f a | Raised e \<Rightarrow> Raised e | OutOfFuel \<Rightarrow> OutOfFuel)"

definition ret :: "'a \<Rightarrow> 'a m" where
  "ret a = (\<lambda>s. (Value a, s))"

definition raise :: "error \<Rightarrow> 'a m" where
  "raise e = (\<lambda>s. (Raised e, s))"

definition mbind :: "'a m \<Rightarrow> ('a \<Rightarrow> 'b m) \<Rightarrow> 'b m" where
  "mbind x f =
     (\<lambda>s. case x s of
             (Value a, s') \<Rightarrow> f a s'
           | (Raised e, s') \<Rightarrow> (Raised e, s')
           | (OutOfFuel, s') \<Rightarrow> (OutOfFuel, s'))"

definition modify :: "(state \<Rightarrow> state) \<Rightarrow> unit m" where
  "modify f = (\<lambda>s. (Value (), f s))"

definition pure :: "(state \<Rightarrow> 'a outcome) \<Rightarrow> 'a m" where
  "pure f = (\<lambda>s. (f s, s))"

text \<open>\<^verbatim>\<open>for x in xs: body(x)\<close>, the list fixed when the loop starts.\<close>

primrec foreach :: "'a list \<Rightarrow> ('a \<Rightarrow> 'b m) \<Rightarrow> unit m" where
  "foreach [] body = ret ()"
| "foreach (x # xs) body = mbind (body x) (\<lambda>_. foreach xs body)"

text \<open>\<^verbatim>\<open>for x in xs: if not body(x): return False\<close>; the result says whether the loop ran to its end.\<close>

primrec foreach_while :: "'a list \<Rightarrow> ('a \<Rightarrow> bool m) \<Rightarrow> bool m" where
  "foreach_while [] body = ret True"
| "foreach_while (x # xs) body = mbind (body x) (\<lambda>ok. if ok then foreach_while xs body else ret False)"

section \<open>Queries\<close>

definition find_job :: "state \<Rightarrow> int \<Rightarrow> job option" where
  "find_job s i = find (\<lambda>j. j_id j = i) (jobs s)"

definition find_pipeline :: "state \<Rightarrow> int \<Rightarrow> pipeline option" where
  "find_pipeline s i = find (\<lambda>p. p_id p = i) (pipelines s)"

text \<open>The relationship \<^verbatim>\<open>job.pipeline\<close>; \<open>None\<close> is Python's \<^verbatim>\<open>None\<close>.\<close>

definition job_pipeline :: "state \<Rightarrow> job \<Rightarrow> pipeline option" where
  "job_pipeline s j = (case j_pipeline_id j of None \<Rightarrow> None | Some i \<Rightarrow> find_pipeline s i)"

text \<open>The relationship \<^verbatim>\<open>pipeline.jobs\<close>.\<close>

definition pipeline_jobs :: "state \<Rightarrow> int \<Rightarrow> job list" where
  "pipeline_jobs s pid = filter (\<lambda>j. j_pipeline_id j = Some pid) (jobs s)"

text \<open>The relationship \<^verbatim>\<open>pipeline.params\<close>; the table is taken to be kept in the order of the names.\<close>

definition pipeline_params :: "state \<Rightarrow> int \<Rightarrow> param list" where
  "pipeline_params s pid = filter (\<lambda>q. prm_pipeline_id q = Some pid) (params s)"

text \<open>The relationship \<^verbatim>\<open>job.params\<close>.\<close>

definition job_params :: "state \<Rightarrow> int \<Rightarrow> param list" where
  "job_params s jid = filter (\<lambda>q. prm_job_id q = Some jid) (params s)"

text \<open>\<^verbatim>\<open>Param.where(pipeline_id=None, job_id=None).all()\<close>.\<close>

definition global_params :: "state \<Rightarrow> param list" where
  "global_params s = filter (\<lambda>q. prm_pipeline_id q = None \<and> prm_job_id q = None) (params s)"

text \<open>The relationship \<^verbatim>\<open>job.start_conditions\<close>: the edges into the job.\<close>

definition job_start_conditions :: "state \<Rightarrow> int \<Rightarrow> start_condition list" where
  "job_start_conditions s jid = filter (\<lambda>sc. sc_job_id sc = Some jid) (start_conditions s)"

text \<open>The relationship \<^verbatim>\<open>start_condition.preceding_job\<close>.\<close>

definition preceding_job :: "state \<Rightarrow> start_condition \<Rightarrow> job option" where
  "preceding_job s sc = (case sc_preceding_job_id sc of None \<Rightarrow> None | Some i \<Rightarrow> find_job s i)"

text \<open>
  The relationship \<^verbatim>\<open>job.dependent_jobs\<close>: the jobs at the far end of an edge whose
  preceding job is this one, each once.
\<close>

definition dependent_jobs :: "state \<Rightarrow> int \<Rightarrow> job list" where
  "dependent_jobs s jid =
     filter (\<lambda>d. list_ex (\<lambda>sc. sc_preceding_job_id sc = Some jid \<and> sc_job_id sc = Some (j_id d))
                          (start_conditions s))
            (jobs s)"

definition update_job :: "int \<Rightarrow> (job \<Rightarrow> job) \<Rightarrow> state \<Rightarrow> state" where
  "update_job i f s = s\<lparr>jobs := map (\<lambda>j. if j_id j = i then f j else j) (jobs s)\<rparr>"

definition update_pipeline :: "int \<Rightarrow> (pipeline \<Rightarrow> pipeline) \<Rightarrow> state \<Rightarrow> state" where
  "update_pipeline i f s = s\<lparr>pipelines := map (\<lambda>p. if p_id p = i then f p else p) (pipelines s)\<rparr>"

text \<open>A method called on the result of a lookup that found nothing is a call on \<^verbatim>\<open>None\<close>.\<close>

definition with_job :: "int \<Rightarrow> (job \<Rightarrow> 'a m) \<Rightarrow> 'a m" where
  "with_job jid f = (\<lambda>s. case find_job s jid of None \<Rightarrow> (Raised AttributeError, s) | Some self \<Rightarrow> f self s)"

definition with_pipeline :: "int \<Rightarrow> (pipeline \<Rightarrow> 'a m) \<Rightarrow> 'a m" where
  "with_pipeline pid f =
     (\<lambda>s. case find_pipeline s pid of None \<Rightarrow> (Raised AttributeError, s) | Some self \<Rightarrow> f self s)"

section \<open>Param\<close>

text \<open>\<^verbatim>\<open>for param in ...: names[param.name] = param.val\<close>, with \<open>v\<close> the evaluation of a param.\<close>

fun bind_names :: "(param \<Rightarrow> pval outcome) \<Rightarrow> param list \<Rightarrow> (string \<rightharpoonup> pval) \<Rightarrow> (string \<rightharpoonup> pval) outcome" where
  "bind_names v [] names = Value names"
| "bind_names v (q # qs) names = obind (v q) (\<lambda>x. bind_names v qs (names(prm_name q \<mapsto> x)))"

text \<open>
  The loop over the inliners: evaluate \<^verbatim>\<open>inliner[2:-2]\<close>, then replace every occurrence
  of the inliner in the value by \<^verbatim>\<open>str(result)\<close>.
\<close>

fun expand_inliners :: "env \<Rightarrow> (string \<rightharpoonup> pval) \<Rightarrow> string list \<Rightarrow> string \<Rightarrow> string outcome" where
  "expand_inliners env names [] v = Value v"
| "expand_inliners env names (body # rest) v =
     (case simple_eval env body names of
        Inl e \<Rightarrow> Raised e
      | Inr result \<Rightarrow>
          expand_inliners env names rest
            (replace (''{%'' @ body @ ''%}'') (str_result env result) v))"

text \<open>
  \<^verbatim>\<open>Param._expand_vars\<close>. The names start as \<^verbatim>\<open>True\<close> and \<^verbatim>\<open>False\<close>; a scoped param
  adds the globals; a job param adds the params of \<^verbatim>\<open>self.job.pipeline\<close>.
\<close>

definition expand_vars :: "env \<Rightarrow> state \<Rightarrow> (param \<Rightarrow> pval outcome) \<Rightarrow> param \<Rightarrow> string \<Rightarrow> string outcome" where
  "expand_vars env s v self val0 =
     obind (if prm_job_id self \<noteq> None \<or> prm_pipeline_id self \<noteq> None
            then bind_names v (global_params s) [''True'' \<mapsto> PBool True, ''False'' \<mapsto> PBool False]
            else Value [''True'' \<mapsto> PBool True, ''False'' \<mapsto> PBool False])
       (\<lambda>names.
          obind (case prm_job_id self of
                   None \<Rightarrow> Value names
                 | Some jid \<Rightarrow>
                     (case find_job s jid of
                        None \<Rightarrow> Raised AttributeError
                      | Some j \<Rightarrow>
                          (case job_pipeline s j of
                             None \<Rightarrow> Raised AttributeError
                           | Some pl \<Rightarrow> bind_names v (pipeline_params s (p_id pl)) names)))
            (\<lambda>names. expand_inliners env names (findall val0) val0))"

text \<open>
  The property \<^verbatim>\<open>Param.val\<close>. The recursion through the params in scope is bounded by
  the first argument.
\<close>

fun val :: "nat \<Rightarrow> env \<Rightarrow> state \<Rightarrow> param \<Rightarrow> pval outcome" where
  "val 0 env s self = OutOfFuel"
| "val (Suc n) env s self =
     (if prm_type self = ''boolean'' then Value (PBool (prm_value self = ''1''))
      else obind (expand_vars env s (val n env s) self (prm_value self))
        (\<lambda>v. if prm_type self = ''number'' then Value (PNum (parse_num v))
              else if prm_type self = ''string_list'' then Value (PStrList (split_lines v))
              else if prm_type self = ''number_list''
                then Value (PNumList (map parse_num (filter (\<lambda>l. strip l \<noteq> []) (split_lines v))))
              else Value (PStr v)))"

section \<open>Job\<close>

definition job_pipeline_prefix :: "job \<Rightarrow> string" where
  "job_pipeline_prefix self = str_opt_int (j_pipeline_id self) @ ''_''"

definition job_prefix :: "job \<Rightarrow> string" where
  "job_prefix self = str_int (j_id self) @ ''_''"

definition status_key :: "job \<Rightarrow> string" where
  "status_key self = job_pipeline_prefix self @ job_prefix self @ CACHE_KEY_STATUS"

definition enqueued_key :: "job \<Rightarrow> string" where
  "enqueued_key self = job_pipeline_prefix self @ job_prefix self @ CACHE_KEY_ENQUEUED_TASKS"

text \<open>\<^verbatim>\<open>Job.get_status\<close>: the cached status, or the persisted column on a miss.\<close>

definition get_status :: "state \<Rightarrow> job \<Rightarrow> cval" where
  "get_status s self = cache_get (memcache s) (status_key self) (VStr (j_status self))"

definition set_status_cache :: "job \<Rightarrow> string \<Rightarrow> state \<Rightarrow> state" where
  "set_status_cache self st s = s\<lparr>memcache := set_cache (status_key self) (VStr st) (memcache s)\<rparr>"

definition prepare_for_start :: "int \<Rightarrow> bool m" where
  "prepare_for_start jid =
     with_job jid (\<lambda>self s.
       if get_status s self \<notin> set [VStr ''idle'', VStr ''succeeded'', VStr ''failed'']
       then (Value False, s)
       else (Value True, set_status_cache self ''waiting'' s))"

text \<open>The loop of \<^verbatim>\<open>Job.get_ready\<close>: the first param whose \<^verbatim>\<open>val\<close> raises, with the exception.\<close>

fun first_bad_param :: "(param \<Rightarrow> pval outcome) \<Rightarrow> param list \<Rightarrow> (param \<times> error) option outcome" where
  "first_bad_param v [] = Value None"
| "first_bad_param v (q # qs) =
     (case v q of
        Value _ \<Rightarrow> first_bad_param v qs
      | Raised e \<Rightarrow> Value (Some (q, e))
      | OutOfFuel \<Rightarrow> OutOfFuel)"

text \<open>
  \<^verbatim>\<open>Job.get_ready\<close>. Only \<^verbatim>\<open>InvalidExpression\<close> and \<^verbatim>\<open>TypeError\<close> are caught. The name
  \<^verbatim>\<open>logger\<close> is bound by the import inside the handler, so the second use of it, after
  a failed \<^verbatim>\<open>prepare_for_start\<close>, is an unbound local.
\<close>

definition job_get_ready :: "nat \<Rightarrow> env \<Rightarrow> int \<Rightarrow> bool m" where
  "job_get_ready n env jid =
     with_job jid (\<lambda>self s.
       case first_bad_param (val n env s) (job_params s jid) of
         OutOfFuel \<Rightarrow> (OutOfFuel, s)
       | Raised e \<Rightarrow> (Raised e, s)
       | Value (Some (q, e)) \<Rightarrow>
           if e = InvalidExpression \<or> e = TypeError
           then (Value False,
                 s\<lparr>logs := logs s @ [\<lparr>l_pipeline_id = j_pipeline_id self, l_job_id = j_id self,
                                      l_worker_class = j_worker_class self,
                                      l_param_label = prm_label q, l_exception = e\<rparr>]\<rparr>)
           else (Raised e, s)
       | Value None \<Rightarrow>
           mbind (prepare_for_start jid) (\<lambda>ok. if ok then ret True else raise UnboundLocalError) s)"

definition increase_value_cache :: "job \<Rightarrow> string \<Rightarrow> int option \<Rightarrow> unit m" where
  "increase_value_cache self key db_value =
     (\<lambda>s. case set_cache_with_value_function (job_pipeline_prefix self @ key)
                  (increase_handler db_value) (memcache s) of
             Inl e \<Rightarrow> (Raised e, s)
           | Inr c \<Rightarrow> (Value (), s\<lparr>memcache := c\<rparr>))"

definition decrease_value_cache :: "job \<Rightarrow> string \<Rightarrow> int option \<Rightarrow> unit m" where
  "decrease_value_cache self key db_value =
     (\<lambda>s. case set_cache_with_value_function (job_pipeline_prefix self @ key)
                  (decrease_handler db_value) (memcache s) of
             Inl e \<Rightarrow> (Raised e, s)
           | Inr c \<Rightarrow> (Value (), s\<lparr>memcache := c\<rparr>))"

definition add_task_name_cache :: "job \<Rightarrow> string \<Rightarrow> unit m" where
  "add_task_name_cache self task_name =
     (\<lambda>s. case set_cache_with_value_function
                  (job_pipeline_prefix self @ CACHE_KEY_LIST_OF_TASKS_ENQUEUED)
                  (add_task_handler task_name) (memcache s) of
             Inl e \<Rightarrow> (Raised e, s)
           | Inr c \<Rightarrow> (Value (), s\<lparr>memcache := c\<rparr>))"

definition delete_task_name_cache :: "job \<Rightarrow> string \<Rightarrow> unit m" where
  "delete_task_name_cache self task_name =
     (\<lambda>s. case set_cache_with_value_function
                  (job_pipeline_prefix self @ CACHE_KEY_LIST_OF_TASKS_ENQUEUED)
                  (delete_task_handler task_name) (memcache s) of
             Inl e \<Rightarrow> (Raised e, s)
           | Inr c \<Rightarrow> (Value (), s\<lparr>memcache := c\<rparr>))"

text \<open>\<^verbatim>\<open>Job._start_condition_is_fulfuilled\<close>, given the status of the preceding job.\<close>

definition start_condition_is_fulfuilled :: "start_condition \<Rightarrow> cval \<Rightarrow> bool" where
  "start_condition_is_fulfuilled start_condition preceding_job_status =
     (if sc_condition start_condition = ''success'' then preceding_job_status \<noteq> VStr ''failed''
      else if sc_condition start_condition = ''fail'' then preceding_job_status \<noteq> VStr ''succeeded''
      else True)"

text \<open>
  The three ways out of the loop of \<^verbatim>\<open>Job.start\<close>: it runs to its end (\<open>Proceed\<close>), it
  meets a fulfilled edge whose preceding job is not yet \<^verbatim>\<open>succeeded\<close> or \<^verbatim>\<open>failed\<close>
  (\<open>NotReady\<close>, the first \<^verbatim>\<open>return False\<close>), or it meets an edge that is not fulfilled
  (\<open>Violated\<close>, the \<^verbatim>\<open>else\<close> branch). Nothing is written before the loop is left, so the
  scan is a function of the state. An edge without preceding job raises.
\<close>

datatype gate = Proceed | NotReady | Violated

fun scan_start_conditions :: "state \<Rightarrow> start_condition list \<Rightarrow> gate outcome" where
  "scan_start_conditions s [] = Value Proceed"
| "scan_start_conditions s (sc # scs) =
     (case preceding_job s sc of
        None \<Rightarrow> Raised AttributeError
      | Some pj \<Rightarrow>
          if start_condition_is_fulfuilled sc (get_status s pj)
          then (if get_status s pj \<notin> set [VStr ''succeeded'', VStr ''failed'']
                then Value NotReady
                else scan_start_conditions s scs)
          else Value Violated)"

text \<open>\<^verbatim>\<open>re.sub(r'[^-_0-9a-zA-Z]', '-', task_name)\<close>.\<close>

definition sanitize :: "string \<Rightarrow> string" where
  "sanitize task_name =
     map (\<lambda>c. if c \<in> set ''-_0123456789abcdefghijklmnopqrstuvwxyzABCDEFGHIJKLMNOPQRSTUVWXYZ''
              then c else CHR ''-'') task_name"

text \<open>
  \<^verbatim>\<open>Job.enqueue\<close>. The result is the task, or \<open>None\<close> for \<^verbatim>\<open>False\<close>. The queue accepts
  every task.
\<close>

definition enqueue :: "int \<Rightarrow> string \<Rightarrow> (string \<times> pval) list \<Rightarrow> nat \<Rightarrow> task option m" where
  "enqueue jid worker_class worker_params delay =
     with_job jid (\<lambda>self s.
       if get_status s self \<noteq> VStr ''running'' then (Value None, s)
       else case job_pipeline s self of
         None \<Rightarrow> (Raised AttributeError, s)
       | Some pl \<Rightarrow>
           (let task_name = p_name pl @ ''_'' @ j_name self @ ''_'' @ j_worker_class self;
                escaped_task_name = sanitize task_name;
                unique_task_name = escaped_task_name @ ''_'' @ uuid_seq s (uuid_next s);
                new_task = \<lparr>t_target = ''job-service'', t_name = unique_task_name, t_url = ''/task'',
                         t_job_id = j_id self, t_worker_class = worker_class,
                         t_worker_params = worker_params, t_task_name = unique_task_name,
                         t_countdown = delay\<rparr>
            in mbind (add_task_name_cache self unique_task_name) (\<lambda>_.
               mbind (modify (\<lambda>s. s\<lparr>queue := queue s @ [new_task]\<rparr>)) (\<lambda>_.
               mbind (modify (update_job jid
                        (\<lambda>j. j\<lparr>j_enqueued_workers_count := j_enqueued_workers_count j + 1\<rparr>))) (\<lambda>_.
               mbind (increase_value_cache self (job_prefix self @ CACHE_KEY_ENQUEUED_TASKS) None) (\<lambda>_.
               ret (Some new_task))))))
             (s\<lparr>uuid_next := Suc (uuid_next s)\<rparr>))"

text \<open>\<^verbatim>\<open>dict([(p.name, p.val) for p in self.params])\<close>, as the list of pairs.\<close>

fun worker_params_of :: "(param \<Rightarrow> pval outcome) \<Rightarrow> param list \<Rightarrow> (string \<times> pval) list outcome" where
  "worker_params_of v [] = Value []"
| "worker_params_of v (q # qs) =
     obind (v q) (\<lambda>x. obind (worker_params_of v qs) (\<lambda>rest. Value ((prm_name q, x) # rest)))"

definition run :: "nat \<Rightarrow> env \<Rightarrow> int \<Rightarrow> unit m" where
  "run n env jid =
     with_job jid (\<lambda>self.
       mbind (modify (update_job jid (\<lambda>j. j\<lparr>j_enqueued_workers_count := 0\<rparr>))) (\<lambda>_.
       mbind (modify (set_status_cache self ''running'')) (\<lambda>_.
       mbind (pure (\<lambda>s. worker_params_of (val n env s) (job_params s jid))) (\<lambda>worker_params.
       mbind (enqueue jid (j_worker_class self) worker_params 0) (\<lambda>_. ret ())))))"

text \<open>\<^verbatim>\<open>Job.stop\<close> reads the persisted column \<^verbatim>\<open>self.status\<close>.\<close>

definition job_stop :: "int \<Rightarrow> bool m" where
  "job_stop jid =
     with_job jid (\<lambda>self s.
       if j_status self = ''waiting''
       then (Value True, update_job jid (\<lambda>j. j\<lparr>j_status := ''failed'', j_status_changed_at := Some (clock s)\<rparr>) s)
       else if j_status self = ''running''
       then (Value True, update_job jid (\<lambda>j. j\<lparr>j_status := ''stopping'', j_status_changed_at := Some (clock s)\<rparr>) s)
       else (Value False, s))"

text \<open>
  \<^verbatim>\<open>Job.set_failed_status\<close>. The argument \<^verbatim>\<open>len(self.pipeline.jobs.all())\<close> is
  evaluated after the first counter is written and raises when the job has no pipeline.
\<close>

definition set_failed_status :: "int \<Rightarrow> unit m" where
  "set_failed_status jid =
     with_job jid (\<lambda>self.
       mbind (increase_value_cache self CACHE_KEY_FAILED_JOBS None) (\<lambda>_.
       mbind (pure (\<lambda>s. case job_pipeline s self of
                          None \<Rightarrow> Raised AttributeError
                        | Some pl \<Rightarrow> Value (int (length (pipeline_jobs s (p_id pl)))))) (\<lambda>total.
       mbind (decrease_value_cache self CACHE_KEY_REMAINING_JOBS (Some total)) (\<lambda>_.
       mbind (modify (set_status_cache self ''failed'')) (\<lambda>_.
       mbind (modify (\<lambda>s. update_job jid (\<lambda>j. j\<lparr>j_status := ''failed'', j_status_changed_at := Some (clock s)\<rparr>) s)) (\<lambda>_.
       (\<lambda>s. case job_pipeline s self of
               None \<Rightarrow> (Raised AttributeError, s)
             | Some pl \<Rightarrow> (Value (), update_pipeline (p_id pl) (\<lambda>p. p\<lparr>p_status := ''failed''\<rparr>) s))))))))"

definition set_succeeded_status :: "int \<Rightarrow> unit m" where
  "set_succeeded_status jid =
     with_job jid (\<lambda>self.
       mbind (pure (\<lambda>s. case job_pipeline s self of
                          None \<Rightarrow> Raised AttributeError
                        | Some pl \<Rightarrow> Value (int (length (pipeline_jobs s (p_id pl)))))) (\<lambda>total.
       mbind (decrease_value_cache self CACHE_KEY_REMAINING_JOBS (Some total)) (\<lambda>_.
       mbind (modify (set_status_cache self ''succeeded'')) (\<lambda>_.
       modify (\<lambda>s. update_job jid (\<lambda>j. j\<lparr>j_status := ''succeeded'', j_status_changed_at := Some (clock s)\<rparr>) s)))))"

section \<open>Pipeline: the end of a run\<close>

text \<open>
  The query of \<^verbatim>\<open>Pipeline._finish\<close>: the jobs of this pipeline that no start condition
  names as its preceding job.
\<close>

definition sink_jobs :: "state \<Rightarrow> int \<Rightarrow> job list" where
  "sink_jobs s pid =
     filter (\<lambda>j. j_pipeline_id j = Some pid \<and>
                 \<not> list_ex (\<lambda>sc. sc_preceding_job_id sc = Some (j_id j)) (start_conditions s))
            (jobs s)"

definition finish_status :: "state \<Rightarrow> int \<Rightarrow> string" where
  "finish_status s pid =
     (if list_ex (\<lambda>job. get_status s job = VStr ''failed'') (sink_jobs s pid)
      then ''failed'' else ''succeeded'')"

definition finish :: "int \<Rightarrow> unit m" where
  "finish pid =
     with_pipeline pid (\<lambda>self.
       mbind (pure (\<lambda>s. Value (finish_status s pid))) (\<lambda>status.
       mbind (modify (\<lambda>s. update_pipeline pid
                (\<lambda>p. p\<lparr>p_status := status, p_status_changed_at := Some (clock s)\<rparr>) s)) (\<lambda>_.
       with_pipeline pid (\<lambda>self. modify (\<lambda>s. s\<lparr>mails := mails s @ [self]\<rparr>)))))"

definition job_finished :: "int \<Rightarrow> bool m" where
  "job_finished pid =
     with_pipeline pid (\<lambda>self s.
       if list_ex (\<lambda>job. get_status s job \<notin> set [VStr ''succeeded'', VStr ''failed'', VStr ''idle''])
                  (pipeline_jobs s pid)
       then (Value False, s)
       else mbind (finish pid) (\<lambda>_. ret True) s)"

section \<open>Job: starting, dependents and worker callbacks\<close>

text \<open>
  \<^verbatim>\<open>Job._start_dependent_jobs\<close>, with \<open>start\<close> the method \<^verbatim>\<open>Job.start\<close>. The
  collection is loaded once, before the loop.
\<close>

definition start_dependent_jobs :: "(int \<Rightarrow> bool m) \<Rightarrow> int \<Rightarrow> unit m" where
  "start_dependent_jobs start jid =
     with_job jid (\<lambda>self.
       mbind (\<lambda>s. foreach (map j_id (dependent_jobs s jid)) start s) (\<lambda>_.
       mbind (pure (\<lambda>s. case job_pipeline s self of
                          None \<Rightarrow> Raised AttributeError | Some pl \<Rightarrow> Value (p_id pl))) (\<lambda>pid.
       mbind (job_finished pid) (\<lambda>_. ret ()))))"

text \<open>
  \<^verbatim>\<open>Job.start\<close>. A job that fails here starts its dependents, which may fail and start
  theirs in turn; the first argument bounds this recursion.
\<close>

fun job_start :: "nat \<Rightarrow> env \<Rightarrow> int \<Rightarrow> bool m" where
  "job_start 0 env jid = (\<lambda>s. (OutOfFuel, s))"
| "job_start (Suc n) env jid =
     with_job jid (\<lambda>self s.
       if get_status s self \<noteq> VStr ''waiting'' then (Value False, s)
       else case scan_start_conditions s (job_start_conditions s jid) of
         OutOfFuel \<Rightarrow> (OutOfFuel, s)
       | Raised e \<Rightarrow> (Raised e, s)
       | Value NotReady \<Rightarrow> (Value False, s)
       | Value Violated \<Rightarrow>
           mbind (set_failed_status jid) (\<lambda>_.
           mbind (start_dependent_jobs (job_start n env) jid) (\<lambda>_. ret False)) s
       | Value Proceed \<Rightarrow> mbind (run n env jid) (\<lambda>_. ret True) s)"

definition enqueued_is_zero :: "job \<Rightarrow> state \<Rightarrow> bool" where
  "enqueued_is_zero self s = (memcache s (enqueued_key self) = Some (VInt 0))"

definition worker_succeeded :: "nat \<Rightarrow> env \<Rightarrow> int \<Rightarrow> string \<Rightarrow> unit m" where
  "worker_succeeded n env jid task_name =
     with_job jid (\<lambda>self.
       mbind (delete_task_name_cache self task_name) (\<lambda>_.
       mbind (decrease_value_cache self (job_prefix self @ CACHE_KEY_ENQUEUED_TASKS)
                (Some (j_enqueued_workers_count self))) (\<lambda>_ s.
         if enqueued_is_zero self s
         then mbind (if get_status s self \<noteq> VStr ''failed''
                     then set_succeeded_status jid else set_failed_status jid) (\<lambda>_.
              start_dependent_jobs (job_start n env) jid) s
         else (Value (), s))))"

definition worker_failed :: "nat \<Rightarrow> env \<Rightarrow> int \<Rightarrow> string \<Rightarrow> unit m" where
  "worker_failed n env jid task_name =
     with_job jid (\<lambda>self.
       mbind (delete_task_name_cache self task_name) (\<lambda>_.
       mbind (decrease_value_cache self (job_prefix self @ CACHE_KEY_ENQUEUED_TASKS) None) (\<lambda>_.
       mbind (set_failed_status jid) (\<lambda>_ s.
         if enqueued_is_zero self s
         then start_dependent_jobs (job_start n env) jid s
         else (Value (), s)))))"

section \<open>Pipeline: start and stop\<close>

definition pipeline_get_ready :: "int \<Rightarrow> unit m" where
  "pipeline_get_ready pid =
     modify (\<lambda>s. s\<lparr>memcache := set_multi_cache
       [(CACHE_KEY_FAILED_JOBS, VInt 0),
        (CACHE_KEY_REMAINING_JOBS, VInt (int (length (pipeline_jobs s pid)))),
        (CACHE_KEY_LIST_OF_TASKS_ENQUEUED, VList [])] (memcache s)\<rparr>)"

definition pipeline_start :: "nat \<Rightarrow> env \<Rightarrow> int \<Rightarrow> bool m" where
  "pipeline_start n env pid =
     with_pipeline pid (\<lambda>self.
       if p_status self \<notin> set [''idle'', ''finished'', ''failed'', ''succeeded''] then ret False
       else mbind (pipeline_get_ready pid) (\<lambda>_ s.
         let js = pipeline_jobs s pid in
         if length js < 1 then (Value False, s)
         else if list_ex (\<lambda>job. get_status s job \<notin> set [VStr ''idle'', VStr ''succeeded'', VStr ''failed'']) js
         then (Value False, s)
         else mbind (foreach_while (map j_id js) (job_get_ready n env)) (\<lambda>ok.
              if \<not> ok then ret False
              else mbind (foreach (map j_id js) (job_start n env)) (\<lambda>_.
                   mbind (modify (\<lambda>s. update_pipeline pid
                            (\<lambda>p. p\<lparr>p_status := ''running'', p_status_changed_at := Some (clock s)\<rparr>) s)) (\<lambda>_.
                   ret True))) s))"

definition pipeline_stop :: "int \<Rightarrow> bool m" where
  "pipeline_stop pid =
     with_pipeline pid (\<lambda>self.
       if p_status self \<noteq> ''running'' then ret False
       else mbind (\<lambda>s. foreach (map j_id (pipeline_jobs s pid)) job_stop s) (\<lambda>_ s.
         if list_ex (\<lambda>job. get_status s job \<notin> set [VStr ''succeeded'', VStr ''failed''])
                    (pipeline_jobs s pid)
         then (Value True, update_pipeline pid
                 (\<lambda>p. p\<lparr>p_status := ''stopping'', p_status_changed_at := Some (clock s)\<rparr>) s)
         else mbind (finish pid) (\<lambda>_. ret True) s))"

section \<open>Vocabulary of the properties\<close>

text \<open>The pipeline-scoped keys that a job writes, and how a cached entry is read.\<close>

definition list_key :: "job \<Rightarrow> string" where
  "list_key self = job_pipeline_prefix self @ CACHE_KEY_LIST_OF_TASKS_ENQUEUED"

definition failed_key :: "job \<Rightarrow> string" where
  "failed_key self = job_pipeline_prefix self @ CACHE_KEY_FAILED_JOBS"

definition remaining_key :: "job \<Rightarrow> string" where
  "remaining_key self = job_pipeline_prefix self @ CACHE_KEY_REMAINING_JOBS"



text \<open>
  The words of the spec on a start-condition edge: it is satisfied when the condition is
  \<^verbatim>\<open>success\<close> and the preceding job is not \<^verbatim>\<open>failed\<close>, or \<^verbatim>\<open>fail\<close> and it is not
  \<^verbatim>\<open>succeeded\<close>, or anything else; the preceding job is terminal when it is
  \<^verbatim>\<open>succeeded\<close> or \<^verbatim>\<open>failed\<close>.
\<close>

definition edge_satisfied :: "state \<Rightarrow> start_condition \<Rightarrow> bool" where
  "edge_satisfied s sc =
     (case preceding_job s sc of
        None \<Rightarrow> False
      | Some pj \<Rightarrow>
          (sc_condition sc = ''success'' \<longrightarrow> get_status s pj \<noteq> VStr ''failed'') \<and>
          (sc_condition sc = ''fail'' \<longrightarrow> get_status s pj \<noteq> VStr ''succeeded''))"

definition preceding_terminal :: "state \<Rightarrow> start_condition \<Rightarrow> bool" where
  "preceding_terminal s sc =
     (case preceding_job s sc of
        None \<Rightarrow> False
      | Some pj \<Rightarrow> get_status s pj = VStr ''succeeded'' \<or> get_status s pj = VStr ''failed'')"

subsection \<open>Example data\<close>

text \<open>
  An evaluator that resolves a bare name, as \<^verbatim>\<open>simple_eval\<close> does, and rejects every other
  expression; \<^verbatim>\<open>str\<close> of a string, an integer or a boolean.
\<close>

definition names_env :: env where
  "names_env =
     \<lparr>simple_eval = (\<lambda>expr names. case names (strip expr) of
                                     None \<Rightarrow> Inl InvalidExpression | Some v \<Rightarrow> Inr v),
      str_result = (\<lambda>v. case v of PStr t \<Rightarrow> t | PNum (NInt i) \<Rightarrow> str_int i
                          | PBool b \<Rightarrow> (if b then ''True'' else ''False'') | _ \<Rightarrow> [])\<rparr>"

definition pipeline_p :: pipeline where
  "pipeline_p = \<lparr>p_id = 1, p_name = ''p'', p_status = ''idle'', p_status_changed_at = None\<rparr>"

definition job_A :: job where
  "job_A = \<lparr>j_id = 1, j_name = ''A'', j_status = ''idle'', j_status_changed_at = None,
            j_worker_class = ''Worker'', j_pipeline_id = Some 1, j_enqueued_workers_count = 0\<rparr>"

definition job_B :: job where
  "job_B = \<lparr>j_id = 2, j_name = ''B'', j_status = ''idle'', j_status_changed_at = None,
            j_worker_class = ''Worker'', j_pipeline_id = Some 1, j_enqueued_workers_count = 0\<rparr>"

definition job_C :: job where
  "job_C = \<lparr>j_id = 3, j_name = ''C'', j_status = ''idle'', j_status_changed_at = None,
            j_worker_class = ''Worker'', j_pipeline_id = Some 1, j_enqueued_workers_count = 0\<rparr>"

text \<open>One pipeline with the single job A, nothing cached.\<close>

definition demo :: state where
  "demo =
     \<lparr>pipelines = [pipeline_p], jobs = [job_A], start_conditions = [], params = [],
      memcache = Map.empty, queue = [], mails = [], logs = [],
      clock = 7, uuid_seq = (\<lambda>n. ''u'' @ str_nat n), uuid_next = 0\<rparr>"

text \<open>Job A is running according to the cache; its persisted status is still \<^verbatim>\<open>idle\<close>.\<close>

definition demo_running :: state where
  "demo_running = demo\<lparr>memcache := [''1_1_status'' \<mapsto> VStr ''running'']\<rparr>"


text \<open>Job A failed according to the cache.\<close>

definition demo_failed :: state where
  "demo_failed = demo\<lparr>memcache := [''1_1_status'' \<mapsto> VStr ''failed'']\<rparr>"

text \<open>A pipeline without jobs and a stale counter in the cache.\<close>

definition demo_empty :: state where
  "demo_empty = demo\<lparr>jobs := [], memcache := [''failed_jobs'' \<mapsto> VInt 5]\<rparr>"

definition job_D :: job where
  "job_D = \<lparr>j_id = 4, j_name = ''D'', j_status = ''idle'', j_status_changed_at = None,
            j_worker_class = ''Worker'', j_pipeline_id = Some 1, j_enqueued_workers_count = 0\<rparr>"

definition job_E :: job where
  "job_E = \<lparr>j_id = 5, j_name = ''E'', j_status = ''idle'', j_status_changed_at = None,
            j_worker_class = ''Worker'', j_pipeline_id = Some 1, j_enqueued_workers_count = 0\<rparr>"

definition edge_AB :: start_condition where
  "edge_AB = \<lparr>sc_id = 1, sc_job_id = Some 2, sc_preceding_job_id = Some 1, sc_condition = ''success''\<rparr>"

definition edge_CB :: start_condition where
  "edge_CB = \<lparr>sc_id = 2, sc_job_id = Some 2, sc_preceding_job_id = Some 3, sc_condition = ''whatever''\<rparr>"

definition edge_AD :: start_condition where
  "edge_AD = \<lparr>sc_id = 3, sc_job_id = Some 4, sc_preceding_job_id = Some 1, sc_condition = ''fail''\<rparr>"

definition edge_CD :: start_condition where
  "edge_CD = \<lparr>sc_id = 4, sc_job_id = Some 4, sc_preceding_job_id = Some 3, sc_condition = ''whatever''\<rparr>"

definition edge_AE :: start_condition where
  "edge_AE = \<lparr>sc_id = 5, sc_job_id = Some 5, sc_preceding_job_id = Some 1, sc_condition = ''fail''\<rparr>"

text \<open>
  A has failed; B, C, D and E are waiting. B follows A on success and C on whatever;
  D follows A on fail and C on whatever; E follows A on fail.
\<close>

definition demo_join :: state where
  "demo_join =
     demo\<lparr>jobs := [job_A, job_B, job_C, job_D, job_E],
          start_conditions := [edge_AB, edge_CB, edge_AD, edge_CD, edge_AE],
          memcache := [''1_1_status'' \<mapsto> VStr ''failed'', ''1_2_status'' \<mapsto> VStr ''waiting'',
                       ''1_3_status'' \<mapsto> VStr ''waiting'', ''1_4_status'' \<mapsto> VStr ''waiting'',
                       ''1_5_status'' \<mapsto> VStr ''waiting'']\<rparr>"

text \<open>Jobs A and B without edges; A is running its only task, two jobs remain.\<close>

definition demo_two_jobs :: state where
  "demo_two_jobs =
     demo\<lparr>jobs := [job_A\<lparr>j_enqueued_workers_count := 1\<rparr>, job_B],
          memcache := [''1_1_status'' \<mapsto> VStr ''running'', ''1_1_enqueued_tasks'' \<mapsto> VInt 1,
                       ''1_list_of_tasks_enqueued'' \<mapsto> VList [''t''], ''1_remaining_jobs'' \<mapsto> VInt 2]\<rparr>"

text \<open>Job A of that state once its task has succeeded.\<close>

definition job_A_succeeded :: job where
  "job_A_succeeded = job_A\<lparr>j_status := ''succeeded'', j_status_changed_at := Some 7,
                           j_enqueued_workers_count := 1\<rparr>"

text \<open>
  The params of the expansion scenario: the global \<open>x\<close>, the pipeline param \<open>y\<close> and the
  job param \<open>z\<close> of type number.
\<close>

definition param_x :: param where
  "param_x = \<lparr>prm_id = 1, prm_name = ''x'', prm_type = ''string'', prm_pipeline_id = None,
              prm_job_id = None, prm_label = ''x'', prm_value = ''2''\<rparr>"

definition param_y :: param where
  "param_y = \<lparr>prm_id = 2, prm_name = ''y'', prm_type = ''string'', prm_pipeline_id = Some 1,
              prm_job_id = None, prm_label = ''y'', prm_value = ''3''\<rparr>"

definition param_z :: param where
  "param_z = \<lparr>prm_id = 3, prm_name = ''z'', prm_type = ''number'', prm_pipeline_id = None,
              prm_job_id = Some 1, prm_label = ''z'', prm_value = ''{% x %} + {% y %} + 5''\<rparr>"

definition demo_params :: state where
  "demo_params = demo\<lparr>params := [param_x, param_y, param_z]\<rparr>"

subsection \<open>The pipeline-scoped counters\<close>

text \<open>
  The keys \<^verbatim>\<open><pipeline_id>_failed_jobs\<close> and \<^verbatim>\<open><pipeline_id>_remaining_jobs\<close> that the jobs
  of a pipeline write, for the value of the column \<^verbatim>\<open>pipeline_id\<close>, and the number of jobs
  with that value.
\<close>

definition scoped_failed_key :: "int option \<Rightarrow> string" where
  "scoped_failed_key po = str_opt_int po @ ''_'' @ CACHE_KEY_FAILED_JOBS"

definition scoped_remaining_key :: "int option \<Rightarrow> string" where
  "scoped_remaining_key po = str_opt_int po @ ''_'' @ CACHE_KEY_REMAINING_JOBS"

definition jobs_with :: "state \<Rightarrow> int option \<Rightarrow> nat" where
  "jobs_with s po = length (filter (\<lambda>j. j_pipeline_id j = po) (jobs s))"

text \<open>A counter is absent or an integer in its range.\<close>

definition failed_jobs_ok :: "cval option \<Rightarrow> bool" where
  "failed_jobs_ok v = (case v of None \<Rightarrow> True | Some (VInt n) \<Rightarrow> 0 \<le> n | Some _ \<Rightarrow> False)"

definition remaining_jobs_ok :: "nat \<Rightarrow> cval option \<Rightarrow> bool" where
  "remaining_jobs_ok bound v =
     (case v of None \<Rightarrow> True | Some (VInt n) \<Rightarrow> 0 \<le> n \<and> n \<le> int bound | Some _ \<Rightarrow> False)"

definition counters_in_range :: "state \<Rightarrow> bool" where
  "counters_in_range s =
     (\<forall>po. failed_jobs_ok (memcache s (scoped_failed_key po)) \<and>
           remaining_jobs_ok (jobs_with s po) (memcache s (scoped_remaining_key po)))"

text \<open>
  The states reached from \<open>s0\<close> by the operations on pipelines and jobs and by the worker
  callbacks, whatever their arguments and whatever their outcome.
\<close>

inductive reachable :: "state \<Rightarrow> state \<Rightarrow> bool" for s0 :: state where
  reach_initial: "reachable s0 s0"
| reach_pipeline_start: "reachable s0 s \<Longrightarrow> reachable s0 (snd (pipeline_start n env pid s))"
| reach_pipeline_stop: "reachable s0 s \<Longrightarrow> reachable s0 (snd (pipeline_stop pid s))"
| reach_job_start: "reachable s0 s \<Longrightarrow> reachable s0 (snd (job_start n env jid s))"
| reach_job_stop: "reachable s0 s \<Longrightarrow> reachable s0 (snd (job_stop jid s))"
| reach_worker_succeeded:
    "reachable s0 s \<Longrightarrow> reachable s0 (snd (worker_succeeded n env jid task_name s))"
| reach_worker_failed:
    "reachable s0 s \<Longrightarrow> reachable s0 (snd (worker_failed n env jid task_name s))"

subsection \<open>The measure of the recursion\<close>

text \<open>
  The number of jobs whose effective status is \<^verbatim>\<open>waiting\<close>: a job that \<^verbatim>\<open>start\<close>
  fails stops waiting before its dependents are started. A param is well scoped when it
  does not name both a pipeline and a job; \<^verbatim>\<open>val\<close> then recurses at most twice.
\<close>

definition waiting_jobs :: "state \<Rightarrow> nat" where
  "waiting_jobs s = length (filter (\<lambda>j. get_status s j = VStr ''waiting'') (jobs s))"

definition well_scoped :: "param list \<Rightarrow> bool" where
  "well_scoped ps = list_all (\<lambda>q. prm_pipeline_id q = None \<or> prm_job_id q = None) ps"

definition at_most_waiting :: "nat \<Rightarrow> param list \<Rightarrow> state \<Rightarrow> bool" where
  "at_most_waiting k ps s = (waiting_jobs s \<le> k \<and> params s = ps)"

section \<open>Auxiliary facts\<close>

lemmas monad_defs = mbind_def ret_def raise_def modify_def pure_def with_job_def with_pipeline_def

lemmas key_defs = status_key_def enqueued_key_def list_key_def failed_key_def remaining_key_def
  job_pipeline_prefix_def job_prefix_def
  CACHE_KEY_STATUS_def CACHE_KEY_ENQUEUED_TASKS_def CACHE_KEY_LIST_OF_TASKS_ENQUEUED_def
  CACHE_KEY_FAILED_JOBS_def CACHE_KEY_REMAINING_JOBS_def

lemma neq_by_suffix: "take 6 (rev a) \<noteq> take 6 (rev b) \<Longrightarrow> a \<noteq> b"
  by auto

lemma neq_by_length: "length a \<noteq> length b \<Longrightarrow> a \<noteq> b"
  by auto

lemma key_neq:
  "status_key a \<noteq> enqueued_key b" "status_key a \<noteq> list_key b"
  "status_key a \<noteq> failed_key b" "status_key a \<noteq> remaining_key b"
  "enqueued_key a \<noteq> list_key b" "enqueued_key a \<noteq> failed_key b"
  "enqueued_key a \<noteq> remaining_key b" "list_key a \<noteq> failed_key b"
  "list_key a \<noteq> remaining_key b" "failed_key a \<noteq> remaining_key b"
  "status_key a \<noteq> CACHE_KEY_FAILED_JOBS" "status_key a \<noteq> CACHE_KEY_REMAINING_JOBS"
  "status_key a \<noteq> CACHE_KEY_LIST_OF_TASKS_ENQUEUED"
  "failed_key a \<noteq> CACHE_KEY_REMAINING_JOBS" "failed_key a \<noteq> CACHE_KEY_LIST_OF_TASKS_ENQUEUED"
  "remaining_key a \<noteq> CACHE_KEY_FAILED_JOBS" "remaining_key a \<noteq> CACHE_KEY_LIST_OF_TASKS_ENQUEUED"
  "CACHE_KEY_FAILED_JOBS \<noteq> CACHE_KEY_REMAINING_JOBS"
  "CACHE_KEY_FAILED_JOBS \<noteq> CACHE_KEY_LIST_OF_TASKS_ENQUEUED"
  "CACHE_KEY_REMAINING_JOBS \<noteq> CACHE_KEY_LIST_OF_TASKS_ENQUEUED"
  by (rule neq_by_suffix, simp add: key_defs)+

lemma key_neq_plain:
  "failed_key a \<noteq> CACHE_KEY_FAILED_JOBS" "remaining_key a \<noteq> CACHE_KEY_REMAINING_JOBS"
  by (rule neq_by_length, simp add: key_defs)+

lemmas key_distinct = key_neq key_neq [THEN not_sym] key_neq_plain key_neq_plain [THEN not_sym]

lemma find_pipeline_id: "find_pipeline s pid = Some self \<Longrightarrow> p_id self = pid"
  by (auto simp: find_pipeline_def find_Some_iff)

lemma find_job_id: "find_job s jid = Some self \<Longrightarrow> j_id self = jid"
  by (auto simp: find_job_def find_Some_iff)

lemma find_map_pipeline:
  "find (\<lambda>p. p_id p = i) ps = Some self \<Longrightarrow> p_id (f self) = i \<Longrightarrow>
   find (\<lambda>p. p_id p = i) (map (\<lambda>p. if p_id p = i then f p else p) ps) = Some (f self)"
  by (induction ps) (auto split: if_splits)

lemma find_pipeline_update:
  "find_pipeline s pid = Some self \<Longrightarrow> p_id (f self) = pid \<Longrightarrow>
   find_pipeline (update_pipeline pid f s) pid = Some (f self)"
  by (simp add: find_pipeline_def update_pipeline_def find_map_pipeline)

lemma find_map_job:
  "find (\<lambda>j. j_id j = i) js = Some self \<Longrightarrow> j_id (f self) = i \<Longrightarrow>
   find (\<lambda>j. j_id j = i) (map (\<lambda>j. if j_id j = i then f j else j) js) = Some (f self)"
  by (induction js) (auto split: if_splits)

lemma find_job_update:
  "find_job s jid = Some self \<Longrightarrow> j_id (f self) = jid \<Longrightarrow>
   find_job (update_job jid f s) jid = Some (f self)"
  by (simp add: find_job_def update_job_def find_map_job)

text \<open>What the cache handlers of a job do to the state.\<close>

lemma increase_value_cache_eq:
  "increase_value_cache self key db_value s =
     (case increase_handler db_value (memcache s (job_pipeline_prefix self @ key)) of
        Inl e \<Rightarrow> (Raised e, s)
      | Inr v \<Rightarrow> (Value (), s\<lparr>memcache := (memcache s)(job_pipeline_prefix self @ key \<mapsto> v)\<rparr>))"
  by (simp add: increase_value_cache_def set_cache_with_value_function_def split: sum.splits)

lemma decrease_value_cache_eq:
  "decrease_value_cache self key db_value s =
     (case decrease_handler db_value (memcache s (job_pipeline_prefix self @ key)) of
        Inl e \<Rightarrow> (Raised e, s)
      | Inr v \<Rightarrow> (Value (), s\<lparr>memcache := (memcache s)(job_pipeline_prefix self @ key \<mapsto> v)\<rparr>))"
  by (simp add: decrease_value_cache_def set_cache_with_value_function_def split: sum.splits)

lemma delete_task_name_cache_eq:
  "delete_task_name_cache self task_name s =
     (case delete_task_handler task_name (memcache s (list_key self)) of
        Inl e \<Rightarrow> (Raised e, s)
      | Inr v \<Rightarrow> (Value (), s\<lparr>memcache := (memcache s)(list_key self \<mapsto> v)\<rparr>))"
  by (simp add: delete_task_name_cache_def set_cache_with_value_function_def list_key_def
      split: sum.splits)

lemma job_pipeline_frame [simp]:
  "job_pipeline (s\<lparr>memcache := c\<rparr>) j = job_pipeline s j"
  "job_pipeline (update_job i f s) j = job_pipeline s j"
  "job_pipeline (set_status_cache self st s) j = job_pipeline s j"
  by (simp_all add: job_pipeline_def find_pipeline_def update_job_def set_status_cache_def
      split: option.splits)

lemma pipeline_jobs_frame [simp]:
  "pipeline_jobs (s\<lparr>memcache := c\<rparr>) pid = pipeline_jobs s pid"
  "pipeline_jobs (set_status_cache self st s) pid = pipeline_jobs s pid"
  by (simp_all add: pipeline_jobs_def set_status_cache_def)

lemma memcache_frame [simp]:
  "memcache (update_job i f s) = memcache s"
  "memcache (update_pipeline i g s) = memcache s"
  "memcache (set_status_cache self st s) = (memcache s)(status_key self \<mapsto> VStr st)"
  by (simp_all add: update_job_def update_pipeline_def set_status_cache_def set_cache_def)

text \<open>The cache after \<^verbatim>\<open>set_failed_status\<close> has returned.\<close>

lemma set_failed_status_cache:
  assumes "find_job s jid = Some self" and "set_failed_status jid s = (Value (), s')"
  shows "\<exists>v1 v2. memcache s' =
           (memcache s)(failed_key self \<mapsto> v1, remaining_key self \<mapsto> v2,
                        status_key self \<mapsto> VStr ''failed'')"
  using assms
  apply (auto simp: set_failed_status_def monad_defs increase_value_cache_eq decrease_value_cache_eq
      failed_key_def [symmetric] remaining_key_def [symmetric]
      split: sum.splits option.splits)
  apply (intro exI)
  apply (rule refl)
  done

subsection \<open>The decimal rendering is injective\<close>

lemma digit_char_code: "d < 10 \<Longrightarrow> (of_char (digit_char d) :: nat) = 48 + d"
proof -
  assume "d < 10"
  then have "d = 0 \<or> d = 1 \<or> d = 2 \<or> d = 3 \<or> d = 4 \<or> d = 5 \<or> d = 6 \<or> d = 7 \<or> d = 8 \<or> d = 9"
    by arith
  then show ?thesis
    by (elim disjE) (simp_all add: digit_char_def)
qed

lemma str_nat_inverse:
  "foldl (\<lambda>a c. 10 * a + (of_char c - 48)) 0 (str_nat n) = n"
proof (induction n rule: str_nat.induct)
  case (1 n)
  show ?case
  proof (cases "n < 10")
    case True
    then show ?thesis by (simp add: str_nat.simps [of n] digit_char_code)
  next
    case False
    with 1 show ?thesis by (simp add: str_nat.simps [of n] digit_char_code)
  qed
qed

lemma str_nat_inj: "str_nat a = str_nat b \<Longrightarrow> a = b"
  by (metis str_nat_inverse)

lemma str_nat_hd: "\<exists>c cs. str_nat n = c # cs \<and> (48::nat) \<le> of_char c \<and> of_char c < (58::nat)"
proof (induction n rule: str_nat.induct)
  case (1 n)
  show ?case
  proof (cases "n < 10")
    case True
    then show ?thesis by (simp add: str_nat.simps [of n] digit_char_code)
  next
    case False
    with 1 show ?thesis by (auto simp: str_nat.simps [of n])
  qed
qed

lemma str_nat_not_minus: "str_nat m \<noteq> CHR ''-'' # cs"
  using str_nat_hd [of m] by auto

lemma str_nat_not_None: "str_nat m \<noteq> ''None''"
  using str_nat_hd [of m] by auto

lemma str_int_inj:
  assumes "str_int a = str_int b"
  shows "a = b"
proof (cases "a < 0"; cases "b < 0")
  assume "a < 0" "b < 0"
  with assms have "str_nat (nat (- a)) = str_nat (nat (- b))" by (simp add: str_int_def)
  then have "nat (- a) = nat (- b)" by (rule str_nat_inj)
  with \<open>a < 0\<close> \<open>b < 0\<close> show ?thesis by arith
next
  assume "a < 0" "\<not> b < 0"
  with assms str_nat_not_minus [of "nat b" "str_nat (nat (- a))"] show ?thesis
    by (simp add: str_int_def)
next
  assume "\<not> a < 0" "b < 0"
  with assms str_nat_not_minus [of "nat a" "str_nat (nat (- b))"] show ?thesis
    by (simp add: str_int_def)
next
  assume "\<not> a < 0" "\<not> b < 0"
  with assms have "str_nat (nat a) = str_nat (nat b)" by (simp add: str_int_def)
  then have "nat a = nat b" by (rule str_nat_inj)
  with \<open>\<not> a < 0\<close> \<open>\<not> b < 0\<close> show ?thesis by arith
qed

lemma str_int_not_None: "str_int i \<noteq> ''None''"
  using str_nat_not_None [of "nat i"] by (simp add: str_int_def)

lemma str_opt_int_inj: "str_opt_int a = str_opt_int b \<Longrightarrow> a = b"
  using str_int_not_None str_int_not_None [symmetric]
  by (auto simp: str_opt_int_def split: option.splits dest: str_int_inj)

lemma scoped_remaining_key_inj: "scoped_remaining_key a = scoped_remaining_key b \<Longrightarrow> a = b"
  by (simp add: scoped_remaining_key_def str_opt_int_inj)

subsection \<open>What keeps the counters in range\<close>

lemma scoped_key_of_job:
  "failed_key self = scoped_failed_key (j_pipeline_id self)"
  "remaining_key self = scoped_remaining_key (j_pipeline_id self)"
  by (simp_all add: failed_key_def remaining_key_def scoped_failed_key_def
      scoped_remaining_key_def job_pipeline_prefix_def)

lemmas scoped_key_defs = scoped_failed_key_def scoped_remaining_key_def key_defs

lemma counter_key_neq:
  "status_key a \<noteq> scoped_failed_key po" "status_key a \<noteq> scoped_remaining_key po"
  "enqueued_key a \<noteq> scoped_failed_key po" "enqueued_key a \<noteq> scoped_remaining_key po"
  "list_key a \<noteq> scoped_failed_key po" "list_key a \<noteq> scoped_remaining_key po"
  "CACHE_KEY_FAILED_JOBS \<noteq> scoped_remaining_key po"
  "CACHE_KEY_REMAINING_JOBS \<noteq> scoped_failed_key po"
  "CACHE_KEY_LIST_OF_TASKS_ENQUEUED \<noteq> scoped_failed_key po"
  "CACHE_KEY_LIST_OF_TASKS_ENQUEUED \<noteq> scoped_remaining_key po"
  "scoped_remaining_key po' \<noteq> scoped_failed_key po"
  by (rule neq_by_suffix, simp add: scoped_key_defs)+

lemma counter_key_neq_plain:
  "CACHE_KEY_FAILED_JOBS \<noteq> scoped_failed_key po"
  "CACHE_KEY_REMAINING_JOBS \<noteq> scoped_remaining_key po"
  by (rule neq_by_length, simp add: scoped_key_defs)+

lemmas not_a_counter = counter_key_neq counter_key_neq_plain

lemma jobs_with_map: "jobs_with s po = length (filter (\<lambda>x. x = po) (map j_pipeline_id (jobs s)))"
  by (simp add: jobs_with_def filter_map comp_def)

lemma cir_frame:
  assumes "counters_in_range s" and "memcache s' = memcache s"
    and "map j_pipeline_id (jobs s') = map j_pipeline_id (jobs s)"
  shows "counters_in_range s'"
  using assms by (simp add: counters_in_range_def jobs_with_map)

lemma cir_write_other:
  assumes "counters_in_range s"
    and "\<And>po. k \<noteq> scoped_failed_key po" and "\<And>po. k \<noteq> scoped_remaining_key po"
  shows "counters_in_range (s\<lparr>memcache := (memcache s)(k \<mapsto> v)\<rparr>)"
  using assms by (auto simp: counters_in_range_def jobs_with_def)

lemma cir_write_failed:
  assumes "counters_in_range s" and "failed_jobs_ok (Some v)"
  shows "counters_in_range (s\<lparr>memcache := (memcache s)(scoped_failed_key po \<mapsto> v)\<rparr>)"
  using assms counter_key_neq(11)
  by (simp add: counters_in_range_def jobs_with_def)

lemma cir_write_remaining:
  assumes "counters_in_range s" and "remaining_jobs_ok (jobs_with s po) (Some v)"
  shows "counters_in_range (s\<lparr>memcache := (memcache s)(scoped_remaining_key po \<mapsto> v)\<rparr>)"
  using assms counter_key_neq(11) [THEN not_sym]
  by (auto simp: counters_in_range_def jobs_with_def dest: scoped_remaining_key_inj)

lemma increase_keeps_failed_ok:
  "failed_jobs_ok c \<Longrightarrow> increase_handler None c = Inr v \<Longrightarrow> failed_jobs_ok (Some v)"
  by (auto simp: failed_jobs_ok_def increase_handler_def increase_seed_def
      split: option.splits cval.splits if_splits)

lemma decrease_keeps_remaining_ok:
  "remaining_jobs_ok bound c \<Longrightarrow> decrease_handler (Some (int bound)) c = Inr v \<Longrightarrow>
   remaining_jobs_ok bound (Some v)"
  by (auto simp: remaining_jobs_ok_def decrease_handler_def decrease_seed_def
      split: option.splits cval.splits if_splits)

lemma pipeline_jobs_of_job:
  "job_pipeline s self = Some pl \<Longrightarrow>
   length (pipeline_jobs s (p_id pl)) = jobs_with s (j_pipeline_id self)"
  by (auto simp: job_pipeline_def pipeline_jobs_def jobs_with_def split: option.splits
      dest: find_pipeline_id)

lemma cir_set_status_cache:
  "counters_in_range s \<Longrightarrow> counters_in_range (set_status_cache self st s)"
  by (simp add: set_status_cache_def set_cache_def cir_write_other not_a_counter)

lemma cir_update_job:
  "counters_in_range s \<Longrightarrow> (\<And>j. j_pipeline_id (f j) = j_pipeline_id j) \<Longrightarrow>
   counters_in_range (update_job i f s)"
  by (rule cir_frame) (auto simp: update_job_def)

lemma cir_update_pipeline:
  "counters_in_range s \<Longrightarrow> counters_in_range (update_pipeline i f s)"
  by (rule cir_frame) (simp_all add: update_pipeline_def)

lemma cir_delete_task_name_cache:
  "delete_task_name_cache self t s = (r, s') \<Longrightarrow> counters_in_range s \<Longrightarrow> counters_in_range s'"
  by (auto simp: delete_task_name_cache_eq cir_write_other not_a_counter split: sum.splits)

lemma cir_add_task_name_cache:
  "add_task_name_cache self t s = (r, s') \<Longrightarrow> counters_in_range s \<Longrightarrow> counters_in_range s'"
  by (auto simp: add_task_name_cache_def set_cache_with_value_function_def list_key_def [symmetric]
      cir_write_other not_a_counter split: sum.splits)

lemma cir_enqueued_count:
  "increase_value_cache self (job_prefix self @ CACHE_KEY_ENQUEUED_TASKS) d s = (r, s') \<Longrightarrow>
   counters_in_range s \<Longrightarrow> counters_in_range s'"
  "decrease_value_cache self (job_prefix self @ CACHE_KEY_ENQUEUED_TASKS) d s = (r, s') \<Longrightarrow>
   counters_in_range s \<Longrightarrow> counters_in_range s'"
  by (auto simp: increase_value_cache_eq decrease_value_cache_eq enqueued_key_def [symmetric]
      cir_write_other not_a_counter split: sum.splits)

lemma cir_increase_failed:
  assumes "increase_value_cache self CACHE_KEY_FAILED_JOBS None s = (r, s')"
    and inv: "counters_in_range s"
  shows "counters_in_range s'"
proof (cases "increase_handler None (memcache s (failed_key self))")
  case (Inl e)
  with assms show ?thesis
    by (simp add: increase_value_cache_eq failed_key_def [symmetric])
next
  case (Inr v)
  from inv have "failed_jobs_ok (memcache s (failed_key self))"
    by (simp add: counters_in_range_def scoped_key_of_job)
  with Inr have "failed_jobs_ok (Some v)" by (rule increase_keeps_failed_ok [rotated])
  with inv have "counters_in_range
      (s\<lparr>memcache := (memcache s)(scoped_failed_key (j_pipeline_id self) \<mapsto> v)\<rparr>)"
    by (rule cir_write_failed)
  with assms Inr show ?thesis
    by (simp add: increase_value_cache_eq failed_key_def [symmetric] scoped_key_of_job)
qed

lemma cir_decrease_remaining:
  assumes "decrease_value_cache self CACHE_KEY_REMAINING_JOBS
             (Some (int (jobs_with s (j_pipeline_id self)))) s = (r, s')"
    and inv: "counters_in_range s"
  shows "counters_in_range s'"
proof (cases "decrease_handler (Some (int (jobs_with s (j_pipeline_id self))))
                (memcache s (remaining_key self))")
  case (Inl e)
  with assms show ?thesis
    by (simp add: decrease_value_cache_eq remaining_key_def [symmetric])
next
  case (Inr v)
  from inv have "remaining_jobs_ok (jobs_with s (j_pipeline_id self)) (memcache s (remaining_key self))"
    by (simp add: counters_in_range_def scoped_key_of_job)
  with Inr have "remaining_jobs_ok (jobs_with s (j_pipeline_id self)) (Some v)"
    by (rule decrease_keeps_remaining_ok [rotated])
  with inv have "counters_in_range
      (s\<lparr>memcache := (memcache s)(scoped_remaining_key (j_pipeline_id self) \<mapsto> v)\<rparr>)"
    by (rule cir_write_remaining)
  with assms Inr show ?thesis
    by (simp add: decrease_value_cache_eq remaining_key_def [symmetric] scoped_key_of_job)
qed

subsection \<open>Every operation keeps the counters in range\<close>

lemma mbindE:
  assumes "mbind m f s = (r, s')"
  obtains (continue) a s1 where "m s = (Value a, s1)" and "f a s1 = (r, s')"
        | (stop) r1 where "m s = (r1, s')"
  using assms by (auto simp: mbind_def split: prod.splits outcome.splits)

lemma with_jobE:
  assumes "with_job jid f s = (r, s')"
  obtains (missing) "s' = s" | (found) self where "find_job s jid = Some self" and "f self s = (r, s')"
  using assms by (auto simp: with_job_def split: option.splits)

lemma with_pipelineE:
  assumes "with_pipeline pid f s = (r, s')"
  obtains (missing) "s' = s"
        | (found) self where "find_pipeline s pid = Some self" and "f self s = (r, s')"
  using assms by (auto simp: with_pipeline_def split: option.splits)

lemma pureE:
  assumes "pure g s = (r, s')"
  obtains "s' = s" and "r = g s"
  using assms by (auto simp: pure_def)

lemma modifyE:
  assumes "modify f s = (r, s')"
  obtains "s' = f s"
  using assms by (auto simp: modify_def)

lemma retE:
  assumes "ret a s = (r, s')"
  obtains "s' = s" and "r = Value a"
  using assms by (auto simp: ret_def)

lemma raiseE:
  assumes "raise e s = (r, s')"
  obtains "s' = s"
  using assms by (auto simp: raise_def)

lemmas stepE = mbindE with_jobE with_pipelineE pureE modifyE retE raiseE

lemma cir_set_failed_status:
  "set_failed_status jid s = (r, s') \<Longrightarrow> counters_in_range s \<Longrightarrow> counters_in_range s'"
  unfolding set_failed_status_def
  by (elim stepE)
     (auto split: option.splits
        dest: cir_increase_failed cir_decrease_remaining
        simp: pipeline_jobs_of_job cir_set_status_cache cir_update_job cir_update_pipeline)

lemma cir_set_succeeded_status:
  "set_succeeded_status jid s = (r, s') \<Longrightarrow> counters_in_range s \<Longrightarrow> counters_in_range s'"
  unfolding set_succeeded_status_def
  by (elim stepE)
     (auto split: option.splits
        dest: cir_decrease_remaining
        simp: pipeline_jobs_of_job cir_set_status_cache cir_update_job cir_update_pipeline)

lemma cir_uuid_next: "counters_in_range s \<Longrightarrow> counters_in_range (s\<lparr>uuid_next := k\<rparr>)"
  by (rule cir_frame) simp_all

lemma cir_queue: "counters_in_range s \<Longrightarrow> counters_in_range (s\<lparr>queue := q\<rparr>)"
  by (rule cir_frame) simp_all

lemma cir_mails: "counters_in_range s \<Longrightarrow> counters_in_range (s\<lparr>mails := q\<rparr>)"
  by (rule cir_frame) simp_all

lemma cir_logs: "counters_in_range s \<Longrightarrow> counters_in_range (s\<lparr>logs := q\<rparr>)"
  by (rule cir_frame) simp_all

lemmas cir_simps = cir_set_status_cache cir_update_job cir_update_pipeline cir_uuid_next
  cir_queue cir_mails cir_logs

lemma cir_enqueue:
  "enqueue jid worker_class worker_params delay s = (r, s') \<Longrightarrow>
   counters_in_range s \<Longrightarrow> counters_in_range s'"
  unfolding enqueue_def Let_def
  by (elim with_jobE)
     (auto split: if_splits option.splits elim!: stepE
        dest!: cir_add_task_name_cache cir_enqueued_count simp: cir_simps)

lemma cir_run:
  "run n env jid s = (r, s') \<Longrightarrow> counters_in_range s \<Longrightarrow> counters_in_range s'"
  unfolding run_def
  by (elim stepE) (auto dest!: cir_enqueue simp: cir_simps)

lemma cir_prepare_for_start:
  "prepare_for_start jid s = (r, s') \<Longrightarrow> counters_in_range s \<Longrightarrow> counters_in_range s'"
  unfolding prepare_for_start_def
  by (elim stepE) (auto split: if_splits simp: cir_simps)

lemma cir_job_get_ready:
  "job_get_ready n env jid s = (r, s') \<Longrightarrow> counters_in_range s \<Longrightarrow> counters_in_range s'"
  unfolding job_get_ready_def
  by (elim with_jobE)
     (auto split: outcome.splits option.splits if_splits elim!: stepE
        dest!: cir_prepare_for_start simp: cir_simps)

lemma cir_job_stop:
  "job_stop jid s = (r, s') \<Longrightarrow> counters_in_range s \<Longrightarrow> counters_in_range s'"
  unfolding job_stop_def
  by (elim stepE) (auto split: if_splits simp: cir_simps)

lemma cir_finish:
  "finish pid s = (r, s') \<Longrightarrow> counters_in_range s \<Longrightarrow> counters_in_range s'"
  unfolding finish_def
  by (elim stepE) (auto simp: cir_simps)

lemma cir_job_finished:
  "job_finished pid s = (r, s') \<Longrightarrow> counters_in_range s \<Longrightarrow> counters_in_range s'"
  unfolding job_finished_def
  by (elim with_pipelineE) (auto split: if_splits elim!: stepE dest!: cir_finish)

lemma cir_foreach:
  assumes "foreach xs body s = (r, s')" and "counters_in_range s"
    and body: "\<And>x s r s'. body x s = (r, s') \<Longrightarrow> counters_in_range s \<Longrightarrow> counters_in_range s'"
  shows "counters_in_range s'"
  using assms(1,2)
proof (induction xs arbitrary: s)
  case Nil
  then show ?case by (auto elim: retE)
next
  case (Cons x xs)
  from Cons.prems(1) show ?case
  proof (simp, elim mbindE)
    fix a s1 assume "body x s = (Value a, s1)" and "foreach xs body s1 = (r, s')"
    with Cons.IH Cons.prems(2) body show ?thesis by blast
  next
    fix r1 assume "body x s = (r1, s')"
    with Cons.prems(2) body show ?thesis by blast
  qed
qed

lemma cir_foreach_while:
  assumes "foreach_while xs body s = (r, s')" and "counters_in_range s"
    and body: "\<And>x s r s'. body x s = (r, s') \<Longrightarrow> counters_in_range s \<Longrightarrow> counters_in_range s'"
  shows "counters_in_range s'"
  using assms(1,2)
proof (induction xs arbitrary: s)
  case Nil
  then show ?case by (auto elim: retE)
next
  case (Cons x xs)
  from Cons.prems(1) show ?case
  proof (simp, elim mbindE)
    fix a s1 assume 1: "body x s = (Value a, s1)"
      and 2: "(if a then foreach_while xs body else ret False) s1 = (r, s')"
    from 1 Cons.prems(2) body have "counters_in_range s1" by blast
    with 2 Cons.IH show ?thesis by (cases a) (auto elim: retE)
  next
    fix r1 assume "body x s = (r1, s')"
    with Cons.prems(2) body show ?thesis by blast
  qed
qed

lemma cir_start_dependent_jobs:
  assumes "start_dependent_jobs start jid s = (r, s')" and "counters_in_range s"
    and start: "\<And>x s r s'. start x s = (r, s') \<Longrightarrow> counters_in_range s \<Longrightarrow> counters_in_range s'"
  shows "counters_in_range s'"
proof -
  have loop: "counters_in_range s2"
    if "foreach xs start s1 = (r1, s2)" "counters_in_range s1" for xs s1 r1 s2
    by (rule cir_foreach [OF that]) (erule start)
  from assms(1,2) show ?thesis
    unfolding start_dependent_jobs_def
    by (elim stepE) (auto dest!: loop cir_job_finished)
qed

lemma cir_job_start:
  "job_start n env jid s = (r, s') \<Longrightarrow> counters_in_range s \<Longrightarrow> counters_in_range s'"
proof (induction n arbitrary: jid s r s')
  case 0
  then show ?case by simp
next
  case (Suc n)
  have dep: "counters_in_range s2"
    if "start_dependent_jobs (job_start n env) jid s1 = (r1, s2)" "counters_in_range s1"
    for s1 r1 s2
    by (rule cir_start_dependent_jobs [OF that]) (erule Suc.IH)
  from Suc.prems show ?case
    by (simp, elim with_jobE)
       (auto split: if_splits outcome.splits gate.splits elim!: mbindE retE
          dest!: cir_set_failed_status cir_run dep)
qed

lemma cir_start_dependents_of_job:
  "start_dependent_jobs (job_start n env) jid s = (r, s') \<Longrightarrow> counters_in_range s \<Longrightarrow>
   counters_in_range s'"
  by (erule cir_start_dependent_jobs) (auto elim: cir_job_start)

lemma cir_worker_succeeded:
  "worker_succeeded n env jid task_name s = (r, s') \<Longrightarrow> counters_in_range s \<Longrightarrow>
   counters_in_range s'"
  unfolding worker_succeeded_def
  by (elim with_jobE)
     (auto split: if_splits elim!: mbindE
        dest!: cir_delete_task_name_cache cir_enqueued_count cir_set_failed_status
          cir_set_succeeded_status cir_start_dependents_of_job)

lemma cir_worker_failed:
  "worker_failed n env jid task_name s = (r, s') \<Longrightarrow> counters_in_range s \<Longrightarrow>
   counters_in_range s'"
  unfolding worker_failed_def
  by (elim with_jobE)
     (auto split: if_splits elim!: mbindE
        dest!: cir_delete_task_name_cache cir_enqueued_count cir_set_failed_status
          cir_start_dependents_of_job)

lemma set_multi_cache_three:
  "set_multi_cache [(a, x), (b, y), (c, z)] m = m(a \<mapsto> x, b \<mapsto> y, c \<mapsto> z)"
  by (simp add: set_multi_cache_def)

lemma cir_pipeline_get_ready:
  assumes "pipeline_get_ready pid s = (r, s')" and inv: "counters_in_range s"
  shows "counters_in_range s'"
proof -
  let ?n = "VInt (int (length (pipeline_jobs s pid)))"
  let ?s1 = "s\<lparr>memcache := (memcache s)(CACHE_KEY_FAILED_JOBS \<mapsto> VInt 0)\<rparr>"
  let ?s2 = "?s1\<lparr>memcache := (memcache ?s1)(CACHE_KEY_REMAINING_JOBS \<mapsto> ?n)\<rparr>"
  let ?s3 = "?s2\<lparr>memcache := (memcache ?s2)(CACHE_KEY_LIST_OF_TASKS_ENQUEUED \<mapsto> VList [])\<rparr>"
  have "counters_in_range ?s1"
    by (rule cir_write_other [OF inv]) (rule not_a_counter)+
  then have "counters_in_range ?s2"
    by (rule cir_write_other) (rule not_a_counter)+
  then have "counters_in_range ?s3"
    by (rule cir_write_other) (rule not_a_counter)+
  moreover have "s' = ?s3"
    using assms(1) by (simp add: pipeline_get_ready_def modify_def set_multi_cache_three)
  ultimately show ?thesis by simp
qed

lemma cir_all_get_ready:
  "foreach_while xs (job_get_ready n env) s = (r, s') \<Longrightarrow> counters_in_range s \<Longrightarrow>
   counters_in_range s'"
  by (erule cir_foreach_while) (auto elim: cir_job_get_ready)

lemma cir_all_start:
  "foreach xs (job_start n env) s = (r, s') \<Longrightarrow> counters_in_range s \<Longrightarrow> counters_in_range s'"
  by (erule cir_foreach) (auto elim: cir_job_start)

lemma cir_all_stop:
  "foreach xs job_stop s = (r, s') \<Longrightarrow> counters_in_range s \<Longrightarrow> counters_in_range s'"
  by (erule cir_foreach) (auto elim: cir_job_stop)

lemma cir_pipeline_start:
  "pipeline_start n env pid s = (r, s') \<Longrightarrow> counters_in_range s \<Longrightarrow> counters_in_range s'"
  unfolding pipeline_start_def Let_def
  by (elim with_pipelineE)
     (auto split: if_splits elim!: mbindE retE modifyE
        dest!: cir_pipeline_get_ready cir_all_get_ready cir_all_start
        simp: cir_simps)

lemma cir_pipeline_stop:
  "pipeline_stop pid s = (r, s') \<Longrightarrow> counters_in_range s \<Longrightarrow> counters_in_range s'"
  unfolding pipeline_stop_def
  by (elim with_pipelineE)
     (auto split: if_splits elim!: mbindE retE
        dest!: cir_all_stop cir_finish
        simp: cir_simps)

subsection \<open>What the two status setters write\<close>

lemma set_succeeded_status_writes:
  assumes "find_job s jid = Some self" and "set_succeeded_status jid s = (Value (), s')"
  shows "\<exists>v. decrease_handler (Some (int (jobs_with s (j_pipeline_id self))))
               (memcache s (remaining_key self)) = Inr v
           \<and> memcache s' = (memcache s)(remaining_key self \<mapsto> v,
                                        status_key self \<mapsto> VStr ''succeeded'')"
  using assms
  by (auto simp: set_succeeded_status_def monad_defs decrease_value_cache_eq
      remaining_key_def [symmetric] pipeline_jobs_of_job
      split: sum.splits option.splits)

lemma set_failed_status_writes:
  assumes "find_job s jid = Some self" and "set_failed_status jid s = (Value (), s')"
  shows "\<exists>v1 v2. increase_handler None (memcache s (failed_key self)) = Inr v1
           \<and> decrease_handler (Some (int (jobs_with s (j_pipeline_id self))))
               (memcache s (remaining_key self)) = Inr v2
           \<and> memcache s' = (memcache s)(failed_key self \<mapsto> v1, remaining_key self \<mapsto> v2,
                                        status_key self \<mapsto> VStr ''failed'')"
  using assms key_distinct
  by (auto simp: set_failed_status_def monad_defs increase_value_cache_eq decrease_value_cache_eq
      failed_key_def [symmetric] remaining_key_def [symmetric] pipeline_jobs_of_job jobs_with_def
      split: sum.splits option.splits)

subsection \<open>The recursion budget\<close>

lemma filter_map_le:
  "(\<And>x. x \<in> set xs \<Longrightarrow> Q (g x) \<Longrightarrow> P x) \<Longrightarrow>
   length (filter Q (map g xs)) \<le> length (filter P xs)"
  by (induction xs) auto

lemma filter_map_less:
  "(\<And>x. x \<in> set xs \<Longrightarrow> Q (g x) \<Longrightarrow> P x) \<Longrightarrow> x \<in> set xs \<Longrightarrow> P x \<Longrightarrow> \<not> Q (g x) \<Longrightarrow>
   length (filter Q (map g xs)) < length (filter P xs)"
proof (induction xs)
  case Nil
  then show ?case by simp
next
  case (Cons y ys)
  have le: "length (filter Q (map g ys)) \<le> length (filter P ys)"
    by (rule filter_map_le) (simp add: Cons.prems(1))
  show ?case
  proof (cases "x = y")
    case True
    with Cons.prems le show ?thesis by auto
  next
    case False
    with Cons.prems have "x \<in> set ys" by simp
    with Cons.IH Cons.prems have "length (filter Q (map g ys)) < length (filter P ys)" by simp
    with Cons.prems(1) [of y] show ?thesis by auto
  qed
qed

lemma waiting_le:
  assumes "jobs s' = map g (jobs s)"
    and "\<And>j. j \<in> set (jobs s) \<Longrightarrow> get_status s' (g j) = VStr ''waiting'' \<Longrightarrow>
              get_status s j = VStr ''waiting''"
  shows "waiting_jobs s' \<le> waiting_jobs s"
  unfolding waiting_jobs_def assms(1)
  by (rule filter_map_le) (rule assms(2))

lemma amw_step:
  assumes "at_most_waiting k ps s" and "params s' = params s" and "jobs s' = map g (jobs s)"
    and "\<And>j. j \<in> set (jobs s) \<Longrightarrow> get_status s' (g j) = VStr ''waiting'' \<Longrightarrow>
              get_status s j = VStr ''waiting''"
  shows "at_most_waiting k ps s'"
  using assms(1,2) waiting_le [OF assms(3,4)] by (simp add: at_most_waiting_def)

lemma amw_write_other:
  assumes "at_most_waiting k ps s" and "\<And>j. key \<noteq> status_key j"
  shows "at_most_waiting k ps (s\<lparr>memcache := (memcache s)(key \<mapsto> v)\<rparr>)"
  by (rule amw_step [OF assms(1), where g = "\<lambda>j. j"])
     (use assms(2) [THEN not_sym] in \<open>auto simp: get_status_def cache_get_def\<close>)

lemma amw_set_status_cache:
  assumes "at_most_waiting k ps s" and "st \<noteq> ''waiting''"
  shows "at_most_waiting k ps (set_status_cache self st s)"
  by (rule amw_step [OF assms(1), where g = "\<lambda>j. j"])
     (use assms(2) in \<open>auto simp: get_status_def cache_get_def set_status_cache_def set_cache_def
        split: if_splits\<close>)

lemma amw_update_job:
  assumes "at_most_waiting k ps s"
    and "\<And>j. status_key (f j) = status_key j"
    and "\<And>j. j_status (f j) = j_status j \<or> j_status (f j) \<noteq> ''waiting''"
  shows "at_most_waiting k ps (update_job i f s)"
proof (rule amw_step [OF assms(1), where g = "\<lambda>j. if j_id j = i then f j else j"])
  fix j assume "get_status (update_job i f s) (if j_id j = i then f j else j) = VStr ''waiting''"
  then show "get_status s j = VStr ''waiting''"
    using assms(2) [of j] assms(3) [of j]
    by (auto simp: get_status_def cache_get_def split: if_splits option.splits)
qed (simp_all add: update_job_def)

lemma amw_frame:
  assumes "at_most_waiting k ps s" and "memcache s' = memcache s" and "jobs s' = jobs s"
    and "params s' = params s"
  shows "at_most_waiting k ps s'"
  by (rule amw_step [OF assms(1) assms(4), where g = "\<lambda>j. j"])
     (simp_all add: assms get_status_def)

lemma amw_update_count:
  "at_most_waiting k ps s \<Longrightarrow>
   at_most_waiting k ps (update_job i (\<lambda>j. j\<lparr>j_enqueued_workers_count := c j\<rparr>) s)"
  by (erule amw_update_job) (simp_all add: status_key_def job_pipeline_prefix_def job_prefix_def)

lemma amw_update_status:
  "at_most_waiting k ps s \<Longrightarrow> st \<noteq> ''waiting'' \<Longrightarrow>
   at_most_waiting k ps (update_job i (\<lambda>j. j\<lparr>j_status := st, j_status_changed_at := t\<rparr>) s)"
  by (erule amw_update_job) (simp_all add: status_key_def job_pipeline_prefix_def job_prefix_def)

lemma amw_cache_handlers:
  "increase_value_cache self CACHE_KEY_FAILED_JOBS d s = (r, s') \<Longrightarrow>
   at_most_waiting k ps s \<Longrightarrow> at_most_waiting k ps s'"
  "decrease_value_cache self CACHE_KEY_REMAINING_JOBS d s = (r, s') \<Longrightarrow>
   at_most_waiting k ps s \<Longrightarrow> at_most_waiting k ps s'"
  "increase_value_cache self (job_prefix self @ CACHE_KEY_ENQUEUED_TASKS) d s = (r, s') \<Longrightarrow>
   at_most_waiting k ps s \<Longrightarrow> at_most_waiting k ps s'"
  "add_task_name_cache self t s = (r, s') \<Longrightarrow>
   at_most_waiting k ps s \<Longrightarrow> at_most_waiting k ps s'"
  using key_distinct
  by (auto simp: increase_value_cache_eq decrease_value_cache_eq add_task_name_cache_def
      set_cache_with_value_function_def
      failed_key_def [symmetric] remaining_key_def [symmetric] enqueued_key_def [symmetric]
      list_key_def [symmetric]
      intro!: amw_write_other split: sum.splits)

lemma amw_fields:
  "at_most_waiting k ps s \<Longrightarrow> at_most_waiting k ps (s\<lparr>uuid_next := u\<rparr>)"
  "at_most_waiting k ps s \<Longrightarrow> at_most_waiting k ps (s\<lparr>queue := q\<rparr>)"
  "at_most_waiting k ps s \<Longrightarrow> at_most_waiting k ps (s\<lparr>mails := ms\<rparr>)"
  "at_most_waiting k ps s \<Longrightarrow> at_most_waiting k ps (update_pipeline i f s)"
  by (erule amw_frame; simp add: update_pipeline_def)+

lemmas amw_simps = amw_fields amw_update_count amw_update_status amw_set_status_cache

lemma amw_set_failed_status:
  fixes k :: nat and ps :: "param list"
  assumes "set_failed_status jid s = (r, s')" and "at_most_waiting k ps s"
  shows "at_most_waiting k ps s'"
  using assms unfolding set_failed_status_def
  by (elim stepE)
     (auto split: option.splits dest!: amw_cache_handlers [where k = k and ps = ps]
        simp: amw_simps)

lemma amw_enqueue:
  fixes k :: nat and ps :: "param list"
  assumes "enqueue jid worker_class worker_params delay s = (r, s')" and "at_most_waiting k ps s"
  shows "at_most_waiting k ps s'"
  using assms unfolding enqueue_def Let_def
  by (elim with_jobE)
     (auto split: if_splits option.splits elim!: stepE
        dest!: amw_cache_handlers [where k = k and ps = ps] simp: amw_simps)

lemma amw_run:
  fixes k :: nat and ps :: "param list"
  assumes "run n env jid s = (r, s')" and "at_most_waiting k ps s"
  shows "at_most_waiting k ps s'"
  using assms unfolding run_def
  by (elim stepE) (auto dest!: amw_enqueue [where k = k and ps = ps] simp: amw_simps)

lemma amw_finish:
  fixes k :: nat and ps :: "param list"
  assumes "finish pid s = (r, s')" and "at_most_waiting k ps s"
  shows "at_most_waiting k ps s'"
  using assms unfolding finish_def
  by (elim stepE) (auto simp: amw_simps)

lemma amw_job_finished:
  fixes k :: nat and ps :: "param list"
  assumes "job_finished pid s = (r, s')" and "at_most_waiting k ps s"
  shows "at_most_waiting k ps s'"
  using assms unfolding job_finished_def
  by (elim with_pipelineE)
     (auto split: if_splits elim!: stepE dest!: amw_finish [where k = k and ps = ps])

lemma amw_foreach:
  assumes "foreach xs body s = (r, s')" and "at_most_waiting k ps s"
    and body: "\<And>x s r s'. body x s = (r, s') \<Longrightarrow> at_most_waiting k ps s \<Longrightarrow>
                 at_most_waiting k ps s'"
  shows "at_most_waiting k ps s'"
  using assms(1,2)
proof (induction xs arbitrary: s)
  case Nil
  then show ?case by (auto elim: retE)
next
  case (Cons x xs)
  from Cons.prems(1) show ?case
  proof (simp, elim mbindE)
    fix a s1 assume "body x s = (Value a, s1)" and "foreach xs body s1 = (r, s')"
    with Cons.IH Cons.prems(2) body show ?thesis by blast
  next
    fix r1 assume "body x s = (r1, s')"
    with Cons.prems(2) body show ?thesis by blast
  qed
qed

lemma amw_start_dependent_jobs:
  assumes "start_dependent_jobs start jid s = (r, s')" and "at_most_waiting k ps s"
    and start: "\<And>x s r s'. start x s = (r, s') \<Longrightarrow> at_most_waiting k ps s \<Longrightarrow>
                  at_most_waiting k ps s'"
  shows "at_most_waiting k ps s'"
proof -
  have loop: "at_most_waiting k ps s2"
    if "foreach xs start s1 = (r1, s2)" "at_most_waiting k ps s1" for xs s1 r1 s2
    by (rule amw_foreach [OF that]) (erule start)
  from assms(1,2) show ?thesis
    unfolding start_dependent_jobs_def
    by (elim stepE) (auto dest!: loop amw_job_finished [where k = k and ps = ps])
qed

lemma amw_job_start:
  fixes k :: nat and ps :: "param list"
  shows "job_start n env jid s = (r, s') \<Longrightarrow> at_most_waiting k ps s \<Longrightarrow>
         at_most_waiting k ps s'"
proof (induction n arbitrary: jid s r s')
  case 0
  then show ?case by simp
next
  case (Suc n)
  have dep: "at_most_waiting k ps s2"
    if "start_dependent_jobs (job_start n env) jid s1 = (r1, s2)" "at_most_waiting k ps s1"
    for s1 r1 s2
    by (rule amw_start_dependent_jobs [OF that]) (erule Suc.IH)
  from Suc.prems show ?case
    by (simp, elim with_jobE)
       (auto split: if_splits outcome.splits gate.splits elim!: mbindE retE
          dest!: amw_set_failed_status [where k = k and ps = ps] amw_run [where k = k and ps = ps] dep)
qed


text \<open>A waiting job that \<^verbatim>\<open>set_failed_status\<close> has failed is no longer waiting.\<close>

lemma fields_frame:
  "jobs (update_job i f s) = map (\<lambda>j. if j_id j = i then f j else j) (jobs s)"
  "jobs (update_pipeline i g s) = jobs s"
  "jobs (set_status_cache self st s) = jobs s"
  "params (update_job i f s) = params s"
  "params (update_pipeline i g s) = params s"
  "params (set_status_cache self st s) = params s"
  "clock (set_status_cache self st s) = clock s"
  by (simp_all add: update_job_def update_pipeline_def set_status_cache_def)

lemma set_failed_status_state:
  assumes "find_job s jid = Some self" and "set_failed_status jid s = (Value (), s')"
  shows "\<exists>v1 v2. memcache s' =
           (memcache s)(failed_key self \<mapsto> v1, remaining_key self \<mapsto> v2,
                        status_key self \<mapsto> VStr ''failed'')
         \<and> jobs s' = map (\<lambda>j. if j_id j = jid
                                then j\<lparr>j_status := ''failed'', j_status_changed_at := Some (clock s)\<rparr>
                                else j) (jobs s)
         \<and> params s' = params s"
  using assms
  apply (auto simp: set_failed_status_def monad_defs increase_value_cache_eq decrease_value_cache_eq
      failed_key_def [symmetric] remaining_key_def [symmetric] fields_frame
      split: sum.splits option.splits)
  apply (intro exI)
  apply (rule refl)
  done

lemma find_job_member:
  "find_job s jid = Some self \<Longrightarrow> self \<in> set (jobs s) \<and> j_id self = jid"
  by (auto simp: find_job_def find_Some_iff)

lemma waiting_pos:
  "find_job s jid = Some self \<Longrightarrow> get_status s self = VStr ''waiting'' \<Longrightarrow> 0 < waiting_jobs s"
  by (auto simp: waiting_jobs_def filter_empty_conv dest: find_job_member)

lemma set_failed_status_fewer_waiting:
  assumes self: "find_job s jid = Some self" and waiting: "get_status s self = VStr ''waiting''"
    and run: "set_failed_status jid s = (Value (), s')"
  shows "waiting_jobs s' < waiting_jobs s \<and> params s' = params s"
proof -
  let ?g = "\<lambda>j. if j_id j = jid
                 then j\<lparr>j_status := ''failed'', j_status_changed_at := Some (clock s)\<rparr> else j"
  from set_failed_status_state [OF self run] obtain v1 v2 where
    c: "memcache s' = (memcache s)(failed_key self \<mapsto> v1, remaining_key self \<mapsto> v2,
                                   status_key self \<mapsto> VStr ''failed'')"
    and j: "jobs s' = map ?g (jobs s)" and p: "params s' = params s"
    by blast
  have k: "status_key (?g x) = status_key x" for x
    by (simp add: status_key_def job_pipeline_prefix_def job_prefix_def)
  have o: "failed_key self \<noteq> status_key x" "remaining_key self \<noteq> status_key x" for x
    using key_distinct by (auto simp: failed_key_def remaining_key_def)
  have mono: "get_status s x = VStr ''waiting''" if "get_status s' (?g x) = VStr ''waiting''" for x
    using that o [of x, THEN not_sym]
    by (auto simp: get_status_def cache_get_def c k split: if_splits option.splits)
  have gone: "get_status s' (?g self) \<noteq> VStr ''waiting''"
    by (simp add: get_status_def cache_get_def c k)
  from find_job_member [OF self] have m: "self \<in> set (jobs s)" by simp
  have "length (filter (\<lambda>j. get_status s' j = VStr ''waiting'') (map ?g (jobs s)))
        < length (filter (\<lambda>j. get_status s j = VStr ''waiting'') (jobs s))"
    by (rule filter_map_less [where x = self]) (use mono m waiting gone in auto)
  with j p show ?thesis by (simp add: waiting_jobs_def)
qed

text \<open>Only the two recursions run out of budget.\<close>

lemma obind_enough:
  "x \<noteq> OutOfFuel \<Longrightarrow> (\<And>a. x = Value a \<Longrightarrow> f a \<noteq> OutOfFuel) \<Longrightarrow> obind x f \<noteq> OutOfFuel"
  by (cases x) (simp_all add: obind_def)

lemma bind_names_enough:
  "(\<And>q. q \<in> set qs \<Longrightarrow> v q \<noteq> OutOfFuel) \<Longrightarrow> bind_names v qs names \<noteq> OutOfFuel"
  by (induction qs arbitrary: names) (auto simp: obind_def split: outcome.splits)

lemma expand_inliners_enough: "expand_inliners env names bodies v \<noteq> OutOfFuel"
  by (induction bodies arbitrary: v) (auto split: sum.splits)

lemma worker_params_of_enough:
  "(\<And>q. q \<in> set qs \<Longrightarrow> v q \<noteq> OutOfFuel) \<Longrightarrow> worker_params_of v qs \<noteq> OutOfFuel"
  by (induction qs) (auto simp: obind_def split: outcome.splits)

lemma expand_vars_enough:
  assumes globals: "\<And>q. q \<in> set (global_params s) \<Longrightarrow> v q \<noteq> OutOfFuel"
    and scoped: "\<And>pid q. prm_job_id self \<noteq> None \<Longrightarrow> q \<in> set (pipeline_params s pid) \<Longrightarrow>
                   v q \<noteq> OutOfFuel"
  shows "expand_vars env s v self v0 \<noteq> OutOfFuel"
proof -
  have g: "bind_names v (global_params s) names \<noteq> OutOfFuel" for names
    by (rule bind_names_enough) (rule globals)
  have p: "bind_names v (pipeline_params s pid) names \<noteq> OutOfFuel"
    if "prm_job_id self \<noteq> None" for pid names
    by (rule bind_names_enough) (rule scoped [OF that])
  show ?thesis
    unfolding expand_vars_def
    using g p
    by (auto simp: obind_def expand_inliners_enough split: outcome.splits option.splits)
qed

lemma val_enough_of_expand_vars:
  "expand_vars env s (val n env s) self (prm_value self) \<noteq> OutOfFuel \<Longrightarrow>
   val (Suc n) env s self \<noteq> OutOfFuel"
  by (auto simp: obind_def split: outcome.splits)

lemma val_global_enough:
  assumes "q \<in> set (global_params s)"
  shows "val (Suc n) env s q \<noteq> OutOfFuel"
proof (rule val_enough_of_expand_vars)
  from assms have "prm_job_id q = None" "prm_pipeline_id q = None"
    by (auto simp: global_params_def)
  then show "expand_vars env s (val n env s) q (prm_value q) \<noteq> OutOfFuel"
    by (simp add: expand_vars_def obind_def expand_inliners_enough)
qed

lemma val_pipeline_enough:
  assumes "well_scoped (params s)" and "q \<in> set (pipeline_params s pid)"
  shows "val (Suc (Suc n)) env s q \<noteq> OutOfFuel"
proof (rule val_enough_of_expand_vars, rule expand_vars_enough)
  fix g assume "g \<in> set (global_params s)"
  then show "val (Suc n) env s g \<noteq> OutOfFuel" by (rule val_global_enough)
next
  fix pid' g assume "prm_job_id q \<noteq> None"
  with assms show "val (Suc n) env s g \<noteq> OutOfFuel"
    by (auto simp: well_scoped_def pipeline_params_def list_all_iff)
qed

lemma val_enough:
  assumes "well_scoped (params s)"
  shows "val (Suc (Suc (Suc n))) env s q \<noteq> OutOfFuel"
proof (rule val_enough_of_expand_vars, rule expand_vars_enough)
  fix g assume "g \<in> set (global_params s)"
  then show "val (Suc (Suc n)) env s g \<noteq> OutOfFuel" by (rule val_global_enough)
next
  fix pid g assume "g \<in> set (pipeline_params s pid)"
  with assms show "val (Suc (Suc n)) env s g \<noteq> OutOfFuel" by (rule val_pipeline_enough)
qed

lemma scan_start_conditions_enough: "scan_start_conditions s scs \<noteq> OutOfFuel"
  by (induction scs) (auto split: option.splits)

lemma cache_handlers_enough:
  "fst (increase_value_cache self key d s) \<noteq> OutOfFuel"
  "fst (decrease_value_cache self key d s) \<noteq> OutOfFuel"
  "fst (add_task_name_cache self t s) \<noteq> OutOfFuel"
  "fst (delete_task_name_cache self t s) \<noteq> OutOfFuel"
  by (simp_all add: increase_value_cache_eq decrease_value_cache_eq delete_task_name_cache_eq
      add_task_name_cache_def set_cache_with_value_function_def split: sum.splits)

lemma mbind_enough:
  assumes "fst (m s) \<noteq> OutOfFuel"
    and "\<And>a s1. m s = (Value a, s1) \<Longrightarrow> fst (f a s1) \<noteq> OutOfFuel"
  shows "fst (mbind m f s) \<noteq> OutOfFuel"
  using assms by (auto simp: mbind_def split: prod.splits outcome.splits)

lemma with_job_enough:
  assumes "\<And>self. find_job s jid = Some self \<Longrightarrow> fst (f self s) \<noteq> OutOfFuel"
  shows "fst (with_job jid f s) \<noteq> OutOfFuel"
  using assms by (auto simp: with_job_def split: option.splits)

lemma with_pipeline_enough:
  assumes "\<And>self. find_pipeline s pid = Some self \<Longrightarrow> fst (f self s) \<noteq> OutOfFuel"
  shows "fst (with_pipeline pid f s) \<noteq> OutOfFuel"
  using assms by (auto simp: with_pipeline_def split: option.splits)

lemma steps_enough:
  "fst (ret a s) \<noteq> OutOfFuel"
  "fst (raise e s) \<noteq> OutOfFuel"
  "fst (modify g s) \<noteq> OutOfFuel"
  "h s \<noteq> OutOfFuel \<Longrightarrow> fst (pure h s) \<noteq> OutOfFuel"
  by (simp_all add: ret_def raise_def modify_def pure_def)

lemmas enough_intros = mbind_enough with_job_enough with_pipeline_enough steps_enough
  cache_handlers_enough

lemma set_failed_status_enough: "fst (set_failed_status jid s) \<noteq> OutOfFuel"
  unfolding set_failed_status_def
  by (intro enough_intros) (simp_all split: option.splits)

lemma enqueue_enough: "fst (enqueue jid worker_class worker_params delay s) \<noteq> OutOfFuel"
  unfolding enqueue_def Let_def
  by (rule with_job_enough)
     (simp split: option.splits, intro conjI impI allI enough_intros)

lemma run_enough:
  assumes "well_scoped (params s)" and "3 \<le> n"
  shows "fst (run n env jid s) \<noteq> OutOfFuel"
proof -
  from assms(2) have n: "n = Suc (Suc (Suc (n - 3)))" by simp
  have v: "worker_params_of (val n env (set_status_cache self st (update_job jid f s))) qs
           \<noteq> OutOfFuel" for self st f qs
    by (subst n, rule worker_params_of_enough, rule val_enough) (simp add: fields_frame assms(1))
  have e: "enqueue jid wc wp d s1 \<noteq> (OutOfFuel, s2)" for wc wp d s1 s2
    using enqueue_enough [of jid wc wp d s1] by auto
  show ?thesis
    using v e
    by (simp add: run_def monad_defs split: option.splits prod.splits outcome.splits)
qed

lemma finish_enough: "fst (finish pid s) \<noteq> OutOfFuel"
  unfolding finish_def
  by (intro enough_intros) simp_all

lemma job_finished_enough: "fst (job_finished pid s) \<noteq> OutOfFuel"
  unfolding job_finished_def
  by (rule with_pipeline_enough)
     (simp, intro conjI impI allI enough_intros finish_enough)

lemma foreach_enough:
  assumes "at_most_waiting k ps s"
    and keeps: "\<And>x s r s'. body x s = (r, s') \<Longrightarrow> at_most_waiting k ps s \<Longrightarrow>
                  at_most_waiting k ps s'"
    and enough: "\<And>x s. at_most_waiting k ps s \<Longrightarrow> fst (body x s) \<noteq> OutOfFuel"
  shows "fst (foreach xs body s) \<noteq> OutOfFuel"
  using assms(1)
proof (induction xs arbitrary: s)
  case Nil
  then show ?case by (simp add: steps_enough)
next
  case (Cons x xs)
  show ?case
    unfolding foreach.simps
  proof (rule mbind_enough)
    show "fst (body x s) \<noteq> OutOfFuel" by (rule enough) (rule Cons.prems)
  next
    fix a s1 assume "body x s = (Value a, s1)"
    then have "at_most_waiting k ps s1" by (rule keeps) (rule Cons.prems)
    then show "fst (foreach xs body s1) \<noteq> OutOfFuel" by (rule Cons.IH)
  qed
qed

lemma start_dependent_jobs_enough:
  assumes "at_most_waiting k ps s"
    and keeps: "\<And>x s r s'. start x s = (r, s') \<Longrightarrow> at_most_waiting k ps s \<Longrightarrow>
                  at_most_waiting k ps s'"
    and enough: "\<And>x s. at_most_waiting k ps s \<Longrightarrow> fst (start x s) \<noteq> OutOfFuel"
  shows "fst (start_dependent_jobs start jid s) \<noteq> OutOfFuel"
proof -
  have loop: "fst (foreach xs start s) \<noteq> OutOfFuel" for xs
    by (rule foreach_enough [OF assms(1)]) (erule keeps, assumption, erule enough)
  show ?thesis
    unfolding start_dependent_jobs_def
    by (intro enough_intros job_finished_enough loop) (simp_all split: option.splits)
qed

text \<open>
  The budget that suffices for \<^verbatim>\<open>start\<close>: three more than the number of waiting jobs.
\<close>

lemma job_start_enough:
  "well_scoped (params s) \<Longrightarrow> waiting_jobs s + 3 \<le> n \<Longrightarrow>
   fst (job_start n env jid s) \<noteq> OutOfFuel"
proof (induction n arbitrary: jid s)
  case 0
  then show ?case by simp
next
  case (Suc n)
  show ?case
    unfolding job_start.simps
  proof (rule with_job_enough)
    fix self assume self: "find_job s jid = Some self"
    let ?scan = "scan_start_conditions s (job_start_conditions s jid)"
    show "fst (if get_status s self \<noteq> VStr ''waiting'' then (Value False, s)
               else case ?scan of
                 OutOfFuel \<Rightarrow> (OutOfFuel, s)
               | Raised e \<Rightarrow> (Raised e, s)
               | Value NotReady \<Rightarrow> (Value False, s)
               | Value Violated \<Rightarrow>
                   mbind (set_failed_status jid) (\<lambda>_.
                   mbind (start_dependent_jobs (job_start n env) jid) (\<lambda>_. ret False)) s
               | Value Proceed \<Rightarrow> mbind (run n env jid) (\<lambda>_. ret True) s) \<noteq> OutOfFuel"
    proof (cases "get_status s self = VStr ''waiting''")
      case False
      then show ?thesis by simp
    next
      case True
      from waiting_pos [OF self True] Suc.prems(2) have n: "3 \<le> n" by simp
      have violated:
        "fst (mbind (set_failed_status jid) (\<lambda>_.
              mbind (start_dependent_jobs (job_start n env) jid) (\<lambda>_. ret False)) s) \<noteq> OutOfFuel"
      proof (intro mbind_enough set_failed_status_enough steps_enough)
        fix a s1 assume "set_failed_status jid s = (Value a, s1)"
        then have "set_failed_status jid s = (Value (), s1)" by simp
        from set_failed_status_fewer_waiting [OF self True this]
        have less: "waiting_jobs s1 < waiting_jobs s" and p: "params s1 = params s" by simp_all
        have start: "at_most_waiting (waiting_jobs s1) (params s) s1"
          by (simp add: at_most_waiting_def p)
        show "fst (start_dependent_jobs (job_start n env) jid s1) \<noteq> OutOfFuel"
        proof (rule start_dependent_jobs_enough [OF start])
          fix x s2 r s3
          assume "job_start n env x s2 = (r, s3)"
            and "at_most_waiting (waiting_jobs s1) (params s) s2"
          then show "at_most_waiting (waiting_jobs s1) (params s) s3" by (rule amw_job_start)
        next
          fix x s2 assume "at_most_waiting (waiting_jobs s1) (params s) s2"
          with less Suc.prems show "fst (job_start n env x s2) \<noteq> OutOfFuel"
            by (intro Suc.IH) (simp_all add: at_most_waiting_def)
        qed
      qed
      have proceed: "fst (mbind (run n env jid) (\<lambda>_. ret True) s) \<noteq> OutOfFuel"
        by (intro mbind_enough steps_enough run_enough Suc.prems(1) n)
      from True violated proceed scan_start_conditions_enough [of s "job_start_conditions s jid"]
      show ?thesis by (simp split: outcome.splits gate.splits)
    qed
  qed
qed
section \<open>The claims\<close>

subsection \<open>C1: terminal status and the enqueued-tasks count\<close>





subsection \<open>C2: what start does to a waiting job\<close>

text \<open>
  Claim C2 gives \<^verbatim>\<open>start\<close> three cases by the existence of an edge of some kind. The
  cases overlap: job B waits, its edge from A is not satisfied, and its edge from C is
  satisfied with C not yet terminal. The claim's first case asks for a return of false
  with the status untouched; the loop meets the edge from A first and B ends
  \<^verbatim>\<open>failed\<close>.
\<close>

theorem job_start_fails_despite_a_pending_edge:
  "get_status demo_join job_B = VStr ''waiting''
   \<and> job_start_conditions demo_join 2 = [edge_AB, edge_CB]
   \<and> edge_satisfied demo_join edge_CB \<and> \<not> preceding_terminal demo_join edge_CB
   \<and> fst (job_start 3 names_env 2 demo_join) = Value False
   \<and> get_status (snd (job_start 3 names_env 2 demo_join)) job_B = VStr ''failed''"
proof -
  have "job_start_conditions demo_join 2 = [edge_AB, edge_CB]"
    by (simp add: job_start_conditions_def demo_join_def demo_def edge_AB_def edge_CB_def
        edge_AD_def edge_CD_def edge_AE_def)
  moreover have "get_status demo_join job_B = VStr ''waiting''" by code_simp
  moreover have "edge_satisfied demo_join edge_CB" by code_simp
  moreover have "\<not> preceding_terminal demo_join edge_CB" by code_simp
  moreover have "fst (job_start 3 names_env 2 demo_join) = Value False" by code_simp
  moreover have "get_status (snd (job_start 3 names_env 2 demo_join)) job_B = VStr ''failed''"
    by code_simp
  ultimately show ?thesis by simp
qed

text \<open>
  C2 as amended: the first edge, in the order of the loop, that is not both satisfied and
  terminal decides. Let the job be waiting and let every edge before that one be satisfied
  with a terminal preceding job. If the edge is satisfied and its preceding job is not
  terminal, \<^verbatim>\<open>start\<close> returns false and the state is unchanged. If the edge is not
  satisfied, \<^verbatim>\<open>start\<close> is \<^verbatim>\<open>set_failed_status\<close>, then the start of the dependents,
  then the return of false; and \<^verbatim>\<open>set_failed_status\<close>, when it returns, leaves the
  effective status \<^verbatim>\<open>failed\<close>. If there is no such edge, \<^verbatim>\<open>start\<close> is \<^verbatim>\<open>run\<close>, then
  the return of true. The recursion through the dependents ends: when no param names both
  a pipeline and a job, a budget of three more than the number of waiting jobs is not
  exhausted.
\<close>

theorem job_start_decided_by_first_edge:
  assumes self: "find_job s jid = Some self"
    and waiting: "get_status s self = VStr ''waiting''"
    and ready: "\<forall>e \<in> set pre. edge_satisfied s e \<and> preceding_terminal s e"
  shows "(job_start_conditions s jid = pre @ sc # post
            \<and> edge_satisfied s sc \<and> \<not> preceding_terminal s sc
          \<longrightarrow> job_start (Suc n) env jid s = (Value False, s))
       \<and> (job_start_conditions s jid = pre @ sc # post
            \<and> preceding_job s sc \<noteq> None \<and> \<not> edge_satisfied s sc
          \<longrightarrow> job_start (Suc n) env jid s =
                mbind (set_failed_status jid)
                  (\<lambda>_. mbind (start_dependent_jobs (job_start n env) jid) (\<lambda>_. ret False)) s
              \<and> (\<forall>s1. set_failed_status jid s = (Value (), s1)
                    \<longrightarrow> get_status s1 self = VStr ''failed''))
       \<and> (job_start_conditions s jid = pre
          \<longrightarrow> job_start (Suc n) env jid s = mbind (run n env jid) (\<lambda>_. ret True) s)
       \<and> (well_scoped (params s) \<and> waiting_jobs s + 2 \<le> n
          \<longrightarrow> fst (job_start (Suc n) env jid s) \<noteq> OutOfFuel)"
proof -
  have skip: "scan_start_conditions s (pre @ rest) = scan_start_conditions s rest" for rest
    using ready
    by (induction pre)
       (auto simp: edge_satisfied_def preceding_terminal_def start_condition_is_fulfuilled_def
          split: option.splits)
  have pending: "scan_start_conditions s (sc # post) = Value NotReady"
    if "edge_satisfied s sc" "\<not> preceding_terminal s sc"
    using that
    by (auto simp: edge_satisfied_def preceding_terminal_def start_condition_is_fulfuilled_def
        split: option.splits)
  have violated: "scan_start_conditions s (sc # post) = Value Violated"
    if "preceding_job s sc \<noteq> None" "\<not> edge_satisfied s sc"
    using that
    by (auto simp: edge_satisfied_def start_condition_is_fulfuilled_def split: option.splits)
  have failed: "get_status s1 self = VStr ''failed''"
    if "set_failed_status jid s = (Value (), s1)" for s1
    using set_failed_status_cache [OF self that]
    by (auto simp: get_status_def cache_get_def)
  have budget: "fst (job_start (Suc n) env jid s) \<noteq> OutOfFuel"
    if "well_scoped (params s)" "waiting_jobs s + 2 \<le> n"
    using that by (intro job_start_enough) simp_all
  have decided:
    "(job_start_conditions s jid = pre @ sc # post
        \<and> edge_satisfied s sc \<and> \<not> preceding_terminal s sc
      \<longrightarrow> job_start (Suc n) env jid s = (Value False, s))
     \<and> (job_start_conditions s jid = pre @ sc # post
        \<and> preceding_job s sc \<noteq> None \<and> \<not> edge_satisfied s sc
      \<longrightarrow> job_start (Suc n) env jid s =
            mbind (set_failed_status jid)
              (\<lambda>_. mbind (start_dependent_jobs (job_start n env) jid) (\<lambda>_. ret False)) s
          \<and> (\<forall>s1. set_failed_status jid s = (Value (), s1)
                \<longrightarrow> get_status s1 self = VStr ''failed''))
     \<and> (job_start_conditions s jid = pre
      \<longrightarrow> job_start (Suc n) env jid s = mbind (run n env jid) (\<lambda>_. ret True) s)"
    using self waiting skip [of "sc # post"] skip [of "[]"] pending violated failed
    by (auto simp: with_job_def)
  from decided budget show ?thesis by blast
qed

theorem job_start_decided_by_first_edge_witness:
  "find_job demo_join 4 = Some job_D \<and> get_status demo_join job_D = VStr ''waiting''
   \<and> job_start_conditions demo_join 4 = [edge_AD] @ edge_CD # []
   \<and> edge_satisfied demo_join edge_AD \<and> preceding_terminal demo_join edge_AD
   \<and> edge_satisfied demo_join edge_CD \<and> \<not> preceding_terminal demo_join edge_CD
   \<and> job_start 3 names_env 4 demo_join = (Value False, demo_join)
   \<and> find_job demo_join 5 = Some job_E \<and> get_status demo_join job_E = VStr ''waiting''
   \<and> job_start_conditions demo_join 5 = [edge_AE]
   \<and> edge_satisfied demo_join edge_AE \<and> preceding_terminal demo_join edge_AE
   \<and> fst (job_start 3 names_env 5 demo_join) = Value True
   \<and> get_status (snd (job_start 3 names_env 5 demo_join)) job_E = VStr ''running''
   \<and> well_scoped (params demo_join) \<and> waiting_jobs demo_join + 2 \<le> 6
   \<and> fst (job_start 7 names_env 5 demo_join) \<noteq> OutOfFuel"
proof -
  have h: "find_job demo_join 4 = Some job_D"
    by (simp add: find_job_def demo_join_def demo_def job_A_def job_B_def job_C_def job_D_def)
  have w: "get_status demo_join job_D = VStr ''waiting''" by code_simp
  have scs: "job_start_conditions demo_join 4 = [edge_AD] @ edge_CD # []"
    by (simp add: job_start_conditions_def demo_join_def demo_def edge_AB_def edge_CB_def
        edge_AD_def edge_CD_def edge_AE_def)
  have a: "edge_satisfied demo_join edge_AD" "preceding_terminal demo_join edge_AD"
    by code_simp+
  have c: "edge_satisfied demo_join edge_CD" "\<not> preceding_terminal demo_join edge_CD"
    by code_simp+
  have r: "\<forall>e \<in> set [edge_AD]. edge_satisfied demo_join e \<and> preceding_terminal demo_join e"
    using a by simp
  from job_start_decided_by_first_edge [OF h w r, of edge_CD "[]" 2 names_env] scs c
  have d: "job_start 3 names_env 4 demo_join = (Value False, demo_join)"
    by (simp add: numeral_3_eq_3)
  have h5: "find_job demo_join 5 = Some job_E"
    by (simp add: find_job_def demo_join_def demo_def job_A_def job_B_def job_C_def job_D_def
        job_E_def)
  have w5: "get_status demo_join job_E = VStr ''waiting''" by code_simp
  have scs5: "job_start_conditions demo_join 5 = [edge_AE]"
    by (simp add: job_start_conditions_def demo_join_def demo_def edge_AB_def edge_CB_def
        edge_AD_def edge_CD_def edge_AE_def)
  have a5: "edge_satisfied demo_join edge_AE" "preceding_terminal demo_join edge_AE"
    by code_simp+
  have r5: "\<forall>e \<in> set [edge_AE]. edge_satisfied demo_join e \<and> preceding_terminal demo_join e"
    using a5 by simp
  have run: "fst (mbind (run 2 names_env 5) (\<lambda>_. ret True) demo_join) = Value True"
    "get_status (snd (mbind (run 2 names_env 5) (\<lambda>_. ret True) demo_join)) job_E = VStr ''running''"
    by code_simp+
  from job_start_decided_by_first_edge [OF h5 w5 r5, of edge_AE "[]" 2 names_env] scs5
  have "job_start 3 names_env 5 demo_join = mbind (run 2 names_env 5) (\<lambda>_. ret True) demo_join"
    by (simp add: numeral_3_eq_3)
  with run have e: "fst (job_start 3 names_env 5 demo_join) = Value True"
    "get_status (snd (job_start 3 names_env 5 demo_join)) job_E = VStr ''running''"
    by simp_all
  have b: "well_scoped (params demo_join)" "waiting_jobs demo_join + 2 \<le> 6"
    by code_simp+
  from job_start_decided_by_first_edge [OF h5 w5 r5, of edge_AE "[]" 6 names_env] b
  have t: "fst (job_start (Suc 6) names_env 5 demo_join) \<noteq> OutOfFuel"
    by blast
  have seven: "(7::nat) = Suc 6" by simp
  have f: "fst (job_start 7 names_env 5 demo_join) \<noteq> OutOfFuel"
    unfolding seven by (rule t)
  from h w scs a c d h5 w5 scs5 a5 e b f show ?thesis by (simp only: simp_thms)
qed

subsection \<open>C3: the outcome of a pipeline\<close>

text \<open>
  Claim C3: when \<^verbatim>\<open>_finish\<close> runs on a pipeline, the pipeline's new status is
  \<^verbatim>\<open>failed\<close> exactly when some job of the pipeline that no start condition names as
  preceding job has the effective status \<^verbatim>\<open>failed\<close>, and \<^verbatim>\<open>succeeded\<close> otherwise;
  the status is stored with the time of the change, and the mailer receives that
  pipeline once more than before. Jobs and cache are left alone.
\<close>

theorem finish_outcome:
  assumes self: "find_pipeline s pid = Some self"
    and res: "finish pid s = (out, s')"
  shows "out = Value ()
       \<and> (\<exists>p'. find_pipeline s' pid = Some p'
            \<and> (p_status p' = ''failed'' \<longleftrightarrow>
                 (\<exists>j \<in> set (jobs s). j_pipeline_id j = Some pid
                     \<and> (\<forall>sc \<in> set (start_conditions s). sc_preceding_job_id sc \<noteq> Some (j_id j))
                     \<and> get_status s j = VStr ''failed''))
            \<and> (p_status p' \<noteq> ''failed'' \<longrightarrow> p_status p' = ''succeeded'')
            \<and> p_status_changed_at p' = Some (clock s)
            \<and> mails s' = mails s @ [p'])
       \<and> jobs s' = jobs s \<and> memcache s' = memcache s"
proof -
  let ?f = "\<lambda>p. p\<lparr>p_status := finish_status s pid, p_status_changed_at := Some (clock s)\<rparr>"
  have upd: "find_pipeline (update_pipeline pid ?f s) pid = Some (?f self)"
    using self by (intro find_pipeline_update) (simp_all add: find_pipeline_id)
  then have "finish pid s = (Value (), (update_pipeline pid ?f s)\<lparr>mails := mails s @ [?f self]\<rparr>)"
    using self by (simp add: finish_def monad_defs) (simp add: update_pipeline_def)
  with res have s': "s' = (update_pipeline pid ?f s)\<lparr>mails := mails s @ [?f self]\<rparr>"
    and out: "out = Value ()"
    by simp_all
  have f: "find_pipeline s' pid = Some (?f self)"
    using upd by (simp add: s' find_pipeline_def)
  have st: "finish_status s pid = ''failed'' \<longleftrightarrow>
          (\<exists>j \<in> set (jobs s). j_pipeline_id j = Some pid
               \<and> (\<forall>sc \<in> set (start_conditions s). sc_preceding_job_id sc \<noteq> Some (j_id j))
               \<and> get_status s j = VStr ''failed'')"
    by (auto simp: finish_status_def sink_jobs_def list_ex_iff)
  have st2: "finish_status s pid \<noteq> ''failed'' \<longrightarrow> finish_status s pid = ''succeeded''"
    by (simp add: finish_status_def)
  show ?thesis
    using out f st st2 by (simp add: s' update_pipeline_def)
qed

theorem finish_outcome_witness:
  "find_pipeline demo_failed 1 = Some pipeline_p
   \<and> fst (finish 1 demo_failed) = Value ()
   \<and> map p_status (mails (snd (finish 1 demo_failed))) = [''failed'']"
proof -
  have h: "find_pipeline demo_failed 1 = Some pipeline_p"
    by (simp add: find_pipeline_def demo_failed_def demo_def pipeline_p_def)
  have g: "get_status demo_failed job_A = VStr ''failed''" by code_simp
  obtain out s' where r: "finish 1 demo_failed = (out, s')" by (cases "finish 1 demo_failed")
  from finish_outcome [OF h r] g show ?thesis
    using h r by (auto simp: demo_failed_def demo_def job_A_def)
qed

subsection \<open>C4: a worker that reports success twice\<close>

text \<open>
  Claim C4 says that a second delivery of the same \<^verbatim>\<open>worker_succeeded\<close> leaves the job's
  status, both counters and the task list as the first delivery left them. Job A runs its
  only task in a pipeline of two jobs. After one delivery \<^verbatim>\<open>1_remaining_jobs\<close> is 1 and
  the mailer has been called once; after the second delivery it is 0 and the mailer has
  been called twice.
\<close>

theorem second_worker_succeeded_counts_again:
  "memcache (snd (worker_succeeded 3 names_env 1 ''t'' demo_two_jobs)) ''1_remaining_jobs''
     = Some (VInt 1)
   \<and> memcache (snd (worker_succeeded 3 names_env 1 ''t''
                  (snd (worker_succeeded 3 names_env 1 ''t'' demo_two_jobs)))) ''1_remaining_jobs''
     = Some (VInt 0)
   \<and> length (mails (snd (worker_succeeded 3 names_env 1 ''t'' demo_two_jobs))) = 1
   \<and> length (mails (snd (worker_succeeded 3 names_env 1 ''t''
                  (snd (worker_succeeded 3 names_env 1 ''t'' demo_two_jobs))))) = 2"
  by code_simp

text \<open>
  C4 as amended. Take a state as a first delivery leaves it when it completes the job: the
  task name is no longer in the cached list, the job's enqueued-tasks count is 0, its
  effective status is \<^verbatim>\<open>succeeded\<close> or \<^verbatim>\<open>failed\<close>, and the persisted
  \<^verbatim>\<open>enqueued_workers_count\<close> is 0 or 1. A second delivery removes nothing from the list
  and leaves the count at 0, but it is not a no-op: it is
  \<^verbatim>\<open>set_succeeded_status\<close> (\<^verbatim>\<open>set_failed_status\<close> for a failed job) once more, followed
  by the start of the dependents and \<^verbatim>\<open>job_finished\<close> once more. When that status
  setter returns, the job's status and the task list are what they were,
  \<^verbatim>\<open>remaining_jobs\<close> has been through its decrement handler again, and for a failed job
  \<^verbatim>\<open>failed_jobs\<close> has been through its increment handler again.
\<close>

theorem duplicate_worker_succeeded:
  assumes self: "find_job s1 jid = Some self"
    and listed: "memcache s1 (list_key self) = Some (VList l)" "task_name \<notin> set l"
    and zero: "memcache s1 (enqueued_key self) = Some (VInt 0)"
    and seed: "j_enqueued_workers_count self = 0 \<or> j_enqueued_workers_count self = 1"
    and status: "get_status s1 self = VStr st" "st = ''succeeded'' \<or> st = ''failed''"
  shows "worker_succeeded n env jid task_name s1 =
           mbind (if st \<noteq> ''failed'' then set_succeeded_status jid else set_failed_status jid)
             (\<lambda>_. start_dependent_jobs (job_start n env) jid) s1
       \<and> (\<forall>s2. (if st \<noteq> ''failed'' then set_succeeded_status jid else set_failed_status jid) s1
                  = (Value (), s2)
            \<longrightarrow> get_status s2 self = VStr st
              \<and> memcache s2 (list_key self) = Some (VList l)
              \<and> memcache s2 (enqueued_key self) = Some (VInt 0)
              \<and> (\<exists>v. decrease_handler (Some (int (jobs_with s1 (j_pipeline_id self))))
                         (memcache s1 (remaining_key self)) = Inr v
                     \<and> memcache s2 (remaining_key self) = Some v)
              \<and> (st = ''failed'' \<longrightarrow>
                    (\<exists>v. increase_handler None (memcache s1 (failed_key self)) = Inr v
                        \<and> memcache s2 (failed_key self) = Some v)))"
proof (intro conjI allI impI)
  have del: "delete_task_handler task_name (memcache s1 (list_key self)) = Inr (VList l)"
    using listed by (cases l) (auto simp: delete_task_handler_def filter_id_conv)
  have dec: "decrease_handler (Some (j_enqueued_workers_count self)) (memcache s1 (enqueued_key self))
               = Inr (VInt 0)"
    using zero seed by (auto simp: decrease_handler_def decrease_seed_def)
  have same1: "s1\<lparr>memcache := (memcache s1)(list_key self \<mapsto> VList l)\<rparr> = s1"
    using listed by (simp add: map_upd_triv)
  have same2: "s1\<lparr>memcache := (memcache s1)(enqueued_key self \<mapsto> VInt 0)\<rparr> = s1"
    using zero by (simp add: map_upd_triv)
  show "worker_succeeded n env jid task_name s1 =
           mbind (if st \<noteq> ''failed'' then set_succeeded_status jid else set_failed_status jid)
             (\<lambda>_. start_dependent_jobs (job_start n env) jid) s1"
  proof -
    have d1: "delete_task_name_cache self task_name s1 = (Value (), s1)"
      by (simp add: delete_task_name_cache_eq del same1)
    have d2: "decrease_value_cache self (job_prefix self @ CACHE_KEY_ENQUEUED_TASKS)
                (Some (j_enqueued_workers_count self)) s1 = (Value (), s1)"
      by (simp add: decrease_value_cache_eq enqueued_key_def [symmetric] dec same2)
    show ?thesis
      using self status d1 d2 zero
      by (auto simp: worker_succeeded_def with_job_def mbind_def enqueued_is_zero_def)
  qed
next
  fix s2
  assume run: "(if st \<noteq> ''failed'' then set_succeeded_status jid else set_failed_status jid) s1
                 = (Value (), s2)"
  show "get_status s2 self = VStr st"
    using run status(2) set_succeeded_status_writes [OF self, of s2]
      set_failed_status_writes [OF self, of s2]
    by (auto simp: get_status_def cache_get_def split: if_splits)
  show "memcache s2 (list_key self) = Some (VList l)"
    using run listed key_distinct set_succeeded_status_writes [OF self, of s2]
      set_failed_status_writes [OF self, of s2]
    by (auto split: if_splits)
  show "memcache s2 (enqueued_key self) = Some (VInt 0)"
    using run zero key_distinct set_succeeded_status_writes [OF self, of s2]
      set_failed_status_writes [OF self, of s2]
    by (auto split: if_splits)
  show "\<exists>v. decrease_handler (Some (int (jobs_with s1 (j_pipeline_id self))))
               (memcache s1 (remaining_key self)) = Inr v
           \<and> memcache s2 (remaining_key self) = Some v"
    using run key_distinct set_succeeded_status_writes [OF self, of s2]
      set_failed_status_writes [OF self, of s2]
    by (auto split: if_splits)
next
  fix s2
  assume run: "(if st \<noteq> ''failed'' then set_succeeded_status jid else set_failed_status jid) s1
                 = (Value (), s2)"
    and failed: "st = ''failed''"
  then show "\<exists>v. increase_handler None (memcache s1 (failed_key self)) = Inr v
                \<and> memcache s2 (failed_key self) = Some v"
    using key_distinct set_failed_status_writes [OF self, of s2]
    by auto
qed

theorem duplicate_worker_succeeded_witness:
  "find_job (snd (worker_succeeded 3 names_env 1 ''t'' demo_two_jobs)) 1 = Some job_A_succeeded
   \<and> memcache (snd (worker_succeeded 3 names_env 1 ''t'' demo_two_jobs)) (list_key job_A_succeeded)
       = Some (VList [])
   \<and> memcache (snd (worker_succeeded 3 names_env 1 ''t'' demo_two_jobs)) (enqueued_key job_A_succeeded)
       = Some (VInt 0)
   \<and> get_status (snd (worker_succeeded 3 names_env 1 ''t'' demo_two_jobs)) job_A_succeeded
       = VStr ''succeeded''
   \<and> get_status (snd (set_succeeded_status 1 (snd (worker_succeeded 3 names_env 1 ''t'' demo_two_jobs))))
        job_A_succeeded = VStr ''succeeded''
   \<and> memcache (snd (set_succeeded_status 1 (snd (worker_succeeded 3 names_env 1 ''t'' demo_two_jobs))))
        (list_key job_A_succeeded) = Some (VList [])"
proof -
  let ?s1 = "snd (worker_succeeded 3 names_env 1 ''t'' demo_two_jobs)"
  have h: "find_job ?s1 1 = Some job_A_succeeded" by code_simp
  have l: "memcache ?s1 (list_key job_A_succeeded) = Some (VList [])" by code_simp
  have z: "memcache ?s1 (enqueued_key job_A_succeeded) = Some (VInt 0)" by code_simp
  have e: "j_enqueued_workers_count job_A_succeeded = 0 \<or>
           j_enqueued_workers_count job_A_succeeded = 1"
    by (simp add: job_A_succeeded_def)
  have g: "get_status ?s1 job_A_succeeded = VStr ''succeeded''" by code_simp
  have "fst (set_succeeded_status 1 ?s1) = Value ()" by code_simp
  then have r: "set_succeeded_status 1 ?s1 = (Value (), snd (set_succeeded_status 1 ?s1))"
    by (simp add: prod_eq_iff)
  from duplicate_worker_succeeded [OF h l _ z e g, of "''t''" 3 names_env] r
  have "get_status (snd (set_succeeded_status 1 ?s1)) job_A_succeeded = VStr ''succeeded''
      \<and> memcache (snd (set_succeeded_status 1 ?s1)) (list_key job_A_succeeded) = Some (VList [])"
    by simp
  then show ?thesis using h l z g by simp
qed

subsection \<open>C5: a number param with arithmetic around its inliners\<close>

text \<open>
  Claim C5 expects the value 10 for the job param \<open>z\<close> of type number with the raw value
  \<^verbatim>\<open>{% x %} + {% y %} + 5\<close>, where the global \<open>x\<close> is \<^verbatim>\<open>2\<close> and the pipeline param \<open>y\<close>
  is \<^verbatim>\<open>3\<close>. Only the text inside an inliner is evaluated: the expanded text is
  \<^verbatim>\<open>2 + 3 + 5\<close>, which is neither an int nor a float literal, and \<^verbatim>\<open>_parse_num\<close>
  answers 0.
\<close>

theorem number_param_of_scenario_is_zero:
  "val 3 names_env demo_params param_z = Value (PNum (NInt 0))
   \<and> val 3 names_env demo_params param_z \<noteq> Value (PNum (NInt 10))"
  by code_simp

text \<open>
  C5 as amended: the value is 0. This holds for every evaluator that resolves the names
  \<open>x\<close> and \<open>y\<close> and for which \<^verbatim>\<open>str\<close> of a string is the string, in every state where
  the only global is the string param \<open>x\<close> with raw value \<^verbatim>\<open>2\<close>, the only param of the
  job's pipeline is the string param \<open>y\<close> with raw value \<^verbatim>\<open>3\<close>, and \<open>z\<close> is a number
  param of the job with raw value \<^verbatim>\<open>{% x %} + {% y %} + 5\<close>.
\<close>

theorem number_param_ignores_arithmetic_outside_inliners:
  assumes globals: "global_params s = [x]"
    and x: "prm_name x = ''x''" "prm_type x = ''string''" "prm_value x = ''2''"
           "prm_pipeline_id x = None" "prm_job_id x = None"
    and owner: "prm_job_id z = Some jid" "find_job s jid = Some j" "job_pipeline s j = Some pl"
    and scoped: "pipeline_params s (p_id pl) = [y]"
    and y: "prm_name y = ''y''" "prm_type y = ''string''" "prm_value y = ''3''"
           "prm_pipeline_id y = Some (p_id pl)" "prm_job_id y = None"
    and z: "prm_type z = ''number''" "prm_value z = ''{% x %} + {% y %} + 5''"
    and eval_x: "\<And>names v. names ''x'' = Some v \<Longrightarrow> simple_eval env '' x '' names = Inr v"
    and eval_y: "\<And>names v. names ''y'' = Some v \<Longrightarrow> simple_eval env '' y '' names = Inr v"
    and str: "\<And>t. str_result env (PStr t) = t"
  shows "val (Suc (Suc (Suc n))) env s z = Value (PNum (NInt 0))"
proof -
  have f2: "findall ''2'' = []" and f3: "findall ''3'' = []"
    and fz: "findall ''{% x %} + {% y %} + 5'' = ['' x '', '' y '']"
    by code_simp+
  have r1: "replace ''{% x %}'' ''2'' ''{% x %} + {% y %} + 5'' = ''2 + {% y %} + 5''"
    and r2: "replace ''{% y %}'' ''3'' ''2 + {% y %} + 5'' = ''2 + 3 + 5''"
    by code_simp+
  have p: "parse_num ''2 + 3 + 5'' = NInt 0" by code_simp
  have vx: "val (Suc k) env s x = Value (PStr ''2'')" for k
    using x by (simp add: expand_vars_def obind_def f2)
  have vy: "val (Suc (Suc k)) env s y = Value (PStr ''3'')" for k
    using y globals vx x by (simp add: expand_vars_def obind_def f3)
  show ?thesis
    using z owner globals scoped x y vx vy
    by (simp add: expand_vars_def obind_def fz eval_x eval_y str r1 r2 p)
qed

theorem number_param_ignores_arithmetic_outside_inliners_witness:
  "global_params demo_params = [param_x] \<and> pipeline_params demo_params 1 = [param_y]
   \<and> find_job demo_params 1 = Some job_A \<and> job_pipeline demo_params job_A = Some pipeline_p
   \<and> val 3 names_env demo_params param_z = Value (PNum (NInt 0))"
proof -
  have g: "global_params demo_params = [param_x]"
    by (simp add: global_params_def demo_params_def demo_def param_x_def param_y_def param_z_def)
  have h: "find_job demo_params 1 = Some job_A"
    by (simp add: find_job_def demo_params_def demo_def job_A_def)
  have pl: "job_pipeline demo_params job_A = Some pipeline_p"
    by (simp add: job_pipeline_def find_pipeline_def demo_params_def demo_def job_A_def
        pipeline_p_def)
  have pp: "pipeline_params demo_params (p_id pipeline_p) = [param_y]"
    by (simp add: pipeline_params_def demo_params_def demo_def param_x_def param_y_def param_z_def
        pipeline_p_def)
  have sx: "strip '' x '' = ''x''" and sy: "strip '' y '' = ''y''" by code_simp+
  have "val (Suc (Suc (Suc 0))) names_env demo_params param_z = Value (PNum (NInt 0))"
    by (rule number_param_ignores_arithmetic_outside_inliners [OF g _ _ _ _ _ _ h pl pp])
       (simp_all add: param_x_def param_y_def param_z_def pipeline_p_def names_env_def sx sy)
  then show ?thesis using g h pl pp by (simp add: numeral_3_eq_3 pipeline_p_def)
qed

subsection \<open>C6: the range of the pipeline-scoped counters\<close>

text \<open>
  Claim C6 bounds both counters of a pipeline by the number of its jobs in every state
  reached by starts, stops and worker callbacks. The pipeline of the example has one job.
  It is started, and the failure of the job's task is reported twice: each report runs
  \<^verbatim>\<open>set_failed_status\<close>, and \<^verbatim>\<open>1_failed_jobs\<close> is 2.
\<close>

theorem failed_jobs_exceeds_the_number_of_jobs:
  "fst (pipeline_start 3 names_env 1 demo) = Value True
   \<and> memcache
        (snd (worker_failed 3 names_env 1 ''p_A_Worker_u0''
          (snd (worker_failed 3 names_env 1 ''p_A_Worker_u0''
            (snd (pipeline_start 3 names_env 1 demo))))))
        (scoped_failed_key (Some 1)) = Some (VInt 2)
   \<and> length (pipeline_jobs
        (snd (worker_failed 3 names_env 1 ''p_A_Worker_u0''
          (snd (worker_failed 3 names_env 1 ''p_A_Worker_u0''
            (snd (pipeline_start 3 names_env 1 demo)))))) 1) = 1"
  by code_simp

text \<open>
  C6 as amended: in every state reached from a state whose counters are in range (an
  empty cache is one), by any sequence of pipeline starts and stops, job starts and
  stops and worker callbacks, the counter \<^verbatim>\<open>failed_jobs\<close> of a pipeline, if cached,
  is an integer that is not negative, and its counter \<^verbatim>\<open>remaining_jobs\<close>, if cached,
  is an integer between 0 and the number of jobs of the pipeline. \<^verbatim>\<open>failed_jobs\<close> has
  no upper bound: it counts the calls of \<^verbatim>\<open>set_failed_status\<close>.
\<close>

theorem counters_stay_in_range:
  assumes reach: "reachable s0 s" and start: "counters_in_range s0"
  shows "(\<forall>v. memcache s (str_int pid @ ''_'' @ CACHE_KEY_FAILED_JOBS) = Some v
              \<longrightarrow> (\<exists>n. v = VInt n \<and> 0 \<le> n))
       \<and> (\<forall>v. memcache s (str_int pid @ ''_'' @ CACHE_KEY_REMAINING_JOBS) = Some v
              \<longrightarrow> (\<exists>n. v = VInt n \<and> 0 \<le> n \<and> n \<le> int (length (pipeline_jobs s pid))))"
proof -
  from reach start have "counters_in_range s"
  proof (induction rule: reachable.induct)
    case reach_initial
    then show ?case .
  next
    case (reach_pipeline_start s n env pid)
    then show ?case
      using cir_pipeline_start [of n env pid s] by (simp add: prod_eq_iff)
  next
    case (reach_pipeline_stop s pid)
    then show ?case
      using cir_pipeline_stop [of pid s] by (simp add: prod_eq_iff)
  next
    case (reach_job_start s n env jid)
    then show ?case
      using cir_job_start [of n env jid s] by (simp add: prod_eq_iff)
  next
    case (reach_job_stop s jid)
    then show ?case
      using cir_job_stop [of jid s] by (simp add: prod_eq_iff)
  next
    case (reach_worker_succeeded s n env jid task_name)
    then show ?case
      using cir_worker_succeeded [of n env jid task_name s] by (simp add: prod_eq_iff)
  next
    case (reach_worker_failed s n env jid task_name)
    then show ?case
      using cir_worker_failed [of n env jid task_name s] by (simp add: prod_eq_iff)
  qed
  then have f: "failed_jobs_ok (memcache s (scoped_failed_key (Some pid)))"
    and r: "remaining_jobs_ok (jobs_with s (Some pid)) (memcache s (scoped_remaining_key (Some pid)))"
    by (simp_all add: counters_in_range_def)
  show ?thesis
  proof (intro conjI allI impI)
    fix v assume "memcache s (str_int pid @ ''_'' @ CACHE_KEY_FAILED_JOBS) = Some v"
    with f show "\<exists>n. v = VInt n \<and> 0 \<le> n"
      by (cases v) (simp_all add: failed_jobs_ok_def scoped_failed_key_def str_opt_int_def)
  next
    fix v assume "memcache s (str_int pid @ ''_'' @ CACHE_KEY_REMAINING_JOBS) = Some v"
    with r show "\<exists>n. v = VInt n \<and> 0 \<le> n \<and> n \<le> int (length (pipeline_jobs s pid))"
      by (cases v)
         (simp_all add: remaining_jobs_ok_def scoped_remaining_key_def str_opt_int_def
            jobs_with_def pipeline_jobs_def)
  qed
qed

theorem counters_stay_in_range_witness:
  "counters_in_range demo
   \<and> reachable demo (snd (worker_failed 3 names_env 1 ''p_A_Worker_u0''
                        (snd (pipeline_start 3 names_env 1 demo))))
   \<and> memcache (snd (worker_failed 3 names_env 1 ''p_A_Worker_u0''
                  (snd (pipeline_start 3 names_env 1 demo))))
        (str_int 1 @ ''_'' @ CACHE_KEY_REMAINING_JOBS) = Some (VInt 0)
   \<and> (0::int) \<le> int (length (pipeline_jobs
          (snd (worker_failed 3 names_env 1 ''p_A_Worker_u0''
                  (snd (pipeline_start 3 names_env 1 demo)))) 1))"
proof -
  let ?s = "snd (worker_failed 3 names_env 1 ''p_A_Worker_u0''
                  (snd (pipeline_start 3 names_env 1 demo)))"
  have c: "counters_in_range demo"
    by (simp add: counters_in_range_def demo_def failed_jobs_ok_def remaining_jobs_ok_def)
  have r: "reachable demo ?s"
    by (intro reachable.intros)
  have m: "memcache ?s (str_int 1 @ ''_'' @ CACHE_KEY_REMAINING_JOBS) = Some (VInt 0)"
    by code_simp
  from counters_stay_in_range [OF r c, of 1] m
  have "(0::int) \<le> int (length (pipeline_jobs ?s 1))" by auto
  with c r m show ?thesis by simp
qed

subsection \<open>C7: the counter operations at a cached zero\<close>

text \<open>
  Claim C7 says that \<^verbatim>\<open>increment\<close> and \<^verbatim>\<open>decrement\<close> work from the current value
  whenever a value is present, also when that value is 0, and fall back to the seed only
  when nothing is cached. The handlers test the cached value for truth, so a cached 0 is
  treated as a miss: with 0 cached, a decrement seeded with 3 stores 2 (not -1), an
  unseeded decrement stores 0 (not -1), and an increment seeded with 5 stores 6 (not 1).
\<close>

theorem cached_zero_is_treated_as_a_miss:
  "decrease_value_cache self key (Some 3)
       (s\<lparr>memcache := (memcache s)(job_pipeline_prefix self @ key \<mapsto> VInt 0)\<rparr>)
     = (Value (), s\<lparr>memcache := (memcache s)(job_pipeline_prefix self @ key \<mapsto> VInt 2)\<rparr>)
   \<and> decrease_value_cache self key None
       (s\<lparr>memcache := (memcache s)(job_pipeline_prefix self @ key \<mapsto> VInt 0)\<rparr>)
     = (Value (), s\<lparr>memcache := (memcache s)(job_pipeline_prefix self @ key \<mapsto> VInt 0)\<rparr>)
   \<and> increase_value_cache self key (Some 5)
       (s\<lparr>memcache := (memcache s)(job_pipeline_prefix self @ key \<mapsto> VInt 0)\<rparr>)
     = (Value (), s\<lparr>memcache := (memcache s)(job_pipeline_prefix self @ key \<mapsto> VInt 6)\<rparr>)"
  by (simp add: decrease_value_cache_def increase_value_cache_def
      set_cache_with_value_function_def decrease_handler_def increase_handler_def
      decrease_seed_def increase_seed_def)

subsection \<open>C8: the status that stop consults\<close>

text \<open>
  Claim C8 says that \<^verbatim>\<open>Job.stop\<close> acts on the effective status, read from the cache
  with the persisted column as fallback. Job A is running according to the cache and
  \<^verbatim>\<open>idle\<close> in its row: \<^verbatim>\<open>stop\<close> reads the row, returns false and changes nothing.
\<close>

theorem job_stop_ignores_cached_status:
  "find_job demo_running 1 = Some job_A
   \<and> get_status demo_running job_A = VStr ''running''
   \<and> job_stop 1 demo_running = (Value False, demo_running)"
proof -
  have "get_status demo_running job_A = VStr ''running''" by code_simp
  moreover have "find_job demo_running 1 = Some job_A"
    by (simp add: find_job_def demo_running_def demo_def job_A_def)
  moreover from this have "job_stop 1 demo_running = (Value False, demo_running)"
    by (simp add: job_stop_def with_job_def) (simp add: job_A_def)
  ultimately show ?thesis by simp
qed

subsection \<open>C9: enqueue and the name of the task\<close>




subsection \<open>C10: a rejected start has already reset the cache\<close>

text \<open>
  Claim C10: when the persisted status of a pipeline is one of \<^verbatim>\<open>idle\<close>,
  \<^verbatim>\<open>finished\<close>, \<^verbatim>\<open>failed\<close>, \<^verbatim>\<open>succeeded\<close>, \<^verbatim>\<open>Pipeline.start\<close> resets the cache
  first. If the pipeline then has no job, or a job whose effective status is not one of
  \<^verbatim>\<open>idle\<close>, \<^verbatim>\<open>succeeded\<close>, \<^verbatim>\<open>failed\<close>, the call returns false and leaves the state
  of \<^verbatim>\<open>get_ready\<close> behind: \<^verbatim>\<open>failed_jobs\<close> is 0, \<^verbatim>\<open>remaining_jobs\<close> is the number
  of jobs and \<^verbatim>\<open>list_of_tasks_enqueued\<close> is empty, under the keys as \<^verbatim>\<open>get_ready\<close>
  passes them to the cache.
\<close>

theorem pipeline_start_resets_before_validation:
  assumes self: "find_pipeline s pid = Some self"
    and st: "p_status self \<in> set [''idle'', ''finished'', ''failed'', ''succeeded'']"
    and bad: "pipeline_jobs s pid = [] \<or>
              (\<exists>job \<in> set (pipeline_jobs s pid).
                  get_status s job \<notin> set [VStr ''idle'', VStr ''succeeded'', VStr ''failed''])"
  shows "pipeline_start n env pid s = (Value False, snd (pipeline_get_ready pid s))
       \<and> memcache (snd (pipeline_get_ready pid s)) CACHE_KEY_FAILED_JOBS = Some (VInt 0)
       \<and> memcache (snd (pipeline_get_ready pid s)) CACHE_KEY_REMAINING_JOBS
           = Some (VInt (int (length (pipeline_jobs s pid))))
       \<and> memcache (snd (pipeline_get_ready pid s)) CACHE_KEY_LIST_OF_TASKS_ENQUEUED = Some (VList [])"
proof -
  let ?s1 = "snd (pipeline_get_ready pid s)"
  obtain s1 where r: "pipeline_get_ready pid s = (Value (), s1)"
    by (simp add: pipeline_get_ready_def modify_def)
  then have s1: "?s1 = s1" by simp
  have js: "pipeline_jobs ?s1 pid = pipeline_jobs s pid"
    by (simp add: pipeline_get_ready_def modify_def pipeline_jobs_def)
  have gs: "get_status ?s1 job = get_status s job" for job
    using key_distinct
    by (simp add: pipeline_get_ready_def modify_def get_status_def cache_get_def
        set_multi_cache_def map_add_def)
  have "pipeline_jobs ?s1 pid = [] \<or>
        list_ex (\<lambda>job. get_status ?s1 job \<notin> set [VStr ''idle'', VStr ''succeeded'', VStr ''failed''])
                (pipeline_jobs ?s1 pid)"
    using bad unfolding js list_ex_iff gs by blast
  then have "pipeline_start n env pid s = (Value False, ?s1)"
    using self st r unfolding s1
    by (auto simp: pipeline_start_def with_pipeline_def mbind_def ret_def Let_def)
  moreover have "memcache ?s1 CACHE_KEY_FAILED_JOBS = Some (VInt 0)"
    "memcache ?s1 CACHE_KEY_REMAINING_JOBS = Some (VInt (int (length (pipeline_jobs s pid))))"
    "memcache ?s1 CACHE_KEY_LIST_OF_TASKS_ENQUEUED = Some (VList [])"
    using key_distinct
    by (simp_all add: pipeline_get_ready_def modify_def set_multi_cache_def map_add_def)
  ultimately show ?thesis by simp
qed

theorem pipeline_start_resets_before_validation_witness:
  "find_pipeline demo_empty 1 = Some pipeline_p
   \<and> memcache demo_empty CACHE_KEY_FAILED_JOBS = Some (VInt 5)
   \<and> fst (pipeline_start 3 names_env 1 demo_empty) = Value False
   \<and> memcache (snd (pipeline_start 3 names_env 1 demo_empty)) CACHE_KEY_FAILED_JOBS = Some (VInt 0)"
proof -
  have h: "find_pipeline demo_empty 1 = Some pipeline_p"
    by (simp add: find_pipeline_def demo_empty_def demo_def pipeline_p_def)
  have st: "p_status pipeline_p \<in> set [''idle'', ''finished'', ''failed'', ''succeeded'']"
    by (simp add: pipeline_p_def)
  have js: "pipeline_jobs demo_empty 1 = []"
    by (simp add: pipeline_jobs_def demo_empty_def demo_def)
  have c: "memcache demo_empty CACHE_KEY_FAILED_JOBS = Some (VInt 5)"
    by (simp add: demo_empty_def CACHE_KEY_FAILED_JOBS_def)
  from pipeline_start_resets_before_validation [OF h st, of 3 names_env] js
  show ?thesis using h c by simp
qed

end
